theory Spec2Isabelle
  imports Main
begin

section \<open>Bulk download of pronunciation audio: the worker thread and its dialog\<close>

text \<open>
  The development embeds \<^verbatim>\<open>BulkAdd.py\<close>: the class \<^verbatim>\<open>Thread\<close> (the worker loop
  \<^verbatim>\<open>run\<close>, \<^verbatim>\<open>toggle_status\<close>) and the dialog \<^verbatim>\<open>BulkAdd\<close>
  (\<^verbatim>\<open>ensure_fields\<close>, \<^verbatim>\<open>select_field\<close>, \<^verbatim>\<open>ensure_languages\<close>,
  \<^verbatim>\<open>select_lang\<close>, \<^verbatim>\<open>start_downloads\<close>, \<^verbatim>\<open>handle_cancel_click\<close>,
  \<^verbatim>\<open>review_downloads\<close>).
\<close>

subsection \<open>Data\<close>

text \<open>
  A card is a Python object of the host application. The list membership test
  \<^verbatim>\<open>card not in done_cards\<close> compares card objects, so a card is modelled by its object
  identity; what the code reads from a card (\<^verbatim>\<open>card.did\<close>,
  \<^verbatim>\<open>card.note_type()["id"]\<close>) comes from the environment, and the fields of its note
  live in the state.
\<close>

type_synonym card = nat

text \<open>A note: its fields in order, each a name and a content.\<close>

type_synonym note_fields = "(string \<times> string) list"

text \<open>
  The exceptions that reach the handlers of \<^verbatim>\<open>run\<close>. \<^verbatim>\<open>AttributeError\<close> is what
  \<^verbatim>\<open>.value\<close> raises on a configuration lookup that returned \<^verbatim>\<open>None\<close>,
  \<^verbatim>\<open>IndexError\<close> what \<^verbatim>\<open>results[len(results) - 1]\<close> raises on an empty list;
  \<^verbatim>\<open>OtherException\<close> stands for whatever the network, the media store or the
  collection raise.
\<close>

datatype exn =
    FieldNotFoundException string
  | NoResultsException
  | DownloadCancelledException
  | AttributeError
  | IndexError
  | OtherException string

text \<open>
  Modelled from the spec: the class \<^verbatim>\<open>Pronunciation\<close> of \<^verbatim>\<open>Forvo.py\<close>, which is
  not among the sources. A candidate has a vote count and an attribution label
  (\<^verbatim>\<open>user\<close>); its audio reference exists once it has been downloaded and is what
  \<^verbatim>\<open>download_pronunciation\<close> answers below. \<^verbatim>\<open>ident\<close> tells two candidates of one
  result list apart.
\<close>

record pronunciation =
  ident :: nat
  user :: string
  votes :: int

text \<open>
  Modelled from the spec: the class \<^verbatim>\<open>Config\<close> of \<^verbatim>\<open>Config.py\<close>, which is not
  among the sources. It is a key/value store with three scopes; a lookup is by the exact
  name and scope and answers \<^verbatim>\<open>None\<close> where nothing is stored, a set is an upsert.
  The global options read here are booleans, the scoped entries field names and language
  codes.
\<close>

record config =
  global_opts :: "string \<rightharpoonup> bool"
  deck_opts :: "(string \<times> nat) \<rightharpoonup> string"
  note_type_opts :: "(string \<times> nat) \<rightharpoonup> string"

definition get_config_object :: "config \<Rightarrow> string \<Rightarrow> bool option" where
  "get_config_object cfg name = global_opts cfg name"

definition get_deck_specific_config_object :: "config \<Rightarrow> string \<Rightarrow> nat \<Rightarrow> string option" where
  "get_deck_specific_config_object cfg name deck = deck_opts cfg (name, deck)"

definition get_note_type_specific_config_object :: "config \<Rightarrow> string \<Rightarrow> nat \<Rightarrow> string option" where
  "get_note_type_specific_config_object cfg name nt = note_type_opts cfg (name, nt)"

definition set_deck_specific_config_object :: "config \<Rightarrow> string \<Rightarrow> string \<Rightarrow> nat \<Rightarrow> config" where
  "set_deck_specific_config_object cfg name v deck =
     cfg\<lparr>deck_opts := (deck_opts cfg)((name, deck) \<mapsto> v)\<rparr>"

definition set_note_type_specific_config_object :: "config \<Rightarrow> string \<Rightarrow> string \<Rightarrow> nat \<Rightarrow> config" where
  "set_note_type_specific_config_object cfg name v nt =
     cfg\<lparr>note_type_opts := (note_type_opts cfg)((name, nt) \<mapsto> v)\<rparr>"

subsection \<open>Selection of the pronunciation\<close>

text \<open>
  \<^verbatim>\<open>results.sort(key=lambda result: result.votes)\<close> followed by
  \<^verbatim>\<open>top = results[len(results) - 1]\<close>. Python's sort is stable and ascending, as
  \<^const>\<open>sort_key\<close> is; index \<^verbatim>\<open>-1\<close> of an empty list raises \<^verbatim>\<open>IndexError\<close>.
\<close>

definition select_top :: "pronunciation list \<Rightarrow> exn + pronunciation" where
  "select_top results =
     (let sorted_results = sort_key votes results
      in if sorted_results = [] then Inl IndexError else Inr (last sorted_results))"

subsection \<open>The environment of the worker\<close>

text \<open>
  What the worker reads from the host application and from the network is not computed
  by this repository; it is a parameter of the model. Each fallible call answers with the
  exception it raises or with its value, and may depend on the state in which it is made.
\<close>

text \<open>
  The lines emitted on the log signal, one constructor for each format string of
  \<^verbatim>\<open>run\<close>, with the values that are formatted into it.
\<close>

datatype log_line =
    NextCard string string
  | TryingJapanesePod101
  | AppendedSound
  | PlacedSound
  | SavedNote
  | SelectedPronunciation string int
  | DownloadedPronunciation
  | ErrorLine string exn

text \<open>
  Where \<^verbatim>\<open>run\<close> is: before its first statement, at the top of the iteration for the
  card at an index, inside \<^verbatim>\<open>cond.wait\<close> of that iteration, in the rest of that
  iteration, returned, or left by an exception.
\<close>

datatype position = AtStart | AtTop nat | Waiting nat | InBody nat | Finished | Crashed exn

text \<open>
  The state. \<^verbatim>\<open>cards\<close>, \<^verbatim>\<open>cnt\<close>, \<^verbatim>\<open>_status\<close>, \<^verbatim>\<open>is_cancelled\<close>,
  \<^verbatim>\<open>skipped_cards\<close> and \<^verbatim>\<open>failed\<close> are attributes of one \<^verbatim>\<open>Thread\<close> instance
  (\<^verbatim>\<open>is_cancelled\<close> is read from the class, where it is \<^verbatim>\<open>False\<close>, until
  \<^verbatim>\<open>handle_cancel_click\<close> assigns it on the instance); \<^verbatim>\<open>skip_existing\<close> is the local
  variable of \<^verbatim>\<open>run\<close> and \<^verbatim>\<open>pc\<close> the place \<^verbatim>\<open>run\<close> has reached.
  \<^verbatim>\<open>done_cards\<close> is the list bound in the class body: \<^verbatim>\<open>run\<close> appends to it in place
  and nothing ever assigns it, so every instance works on the same list. \<^verbatim>\<open>note_of\<close> are the
  fields of each card's note; \<^verbatim>\<open>change_value\<close> and \<^verbatim>\<open>log_emitted\<close> are the values
  emitted on the two signals, \<^verbatim>\<open>error_log\<close> what was written to the failure log,
  \<^verbatim>\<open>cleanups\<close> the number of calls of \<^verbatim>\<open>Forvo.cleanup\<close> and \<^verbatim>\<open>slept\<close> the
  milliseconds spent in \<^verbatim>\<open>msleep\<close>.
\<close>

record system =
  cards :: "card list"
  cnt :: nat
  status :: bool
  is_cancelled :: bool
  skipped_cards :: nat
  failed :: "(card \<times> exn) list"
  skip_existing :: bool
  pc :: position
  done_cards :: "card list"
  note_of :: "card \<Rightarrow> note_fields"
  change_value :: "nat list"
  log_emitted :: "log_line list"
  error_log :: "(card \<times> exn) list"
  cleanups :: nat
  slept :: nat

text \<open>
  The environment: \<^verbatim>\<open>card.did\<close>; \<^verbatim>\<open>card.note_type()["id"]\<close>; the constructor
  \<^verbatim>\<open>Forvo(query, language, mw, config)\<close>;
  \<^verbatim>\<open>load_search_query().get_pronunciations().pronunciations\<close>;
  \<^verbatim>\<open>top.download_pronunciation()\<close> with the value of \<^verbatim>\<open>top.audio\<close> after it; the
  request to jisho.org with the reading taken from its answer; the request to
  JapanesePod101 with the file written to the temporary directory; \<^verbatim>\<open>md5\<close> of that
  file; \<^verbatim>\<open>mw.col.media.add_file\<close>; \<^verbatim>\<open>card.note().flush()\<close>. The last two are
  the calls of the handler of the loop: \<^verbatim>\<open>card.note()\<close> as the handler evaluates it for
  its log line, with the exception it raises when the note cannot be loaded, and the
  opening and writing of the failure log of the hour.
\<close>

record env =
  card_did :: "card \<Rightarrow> nat"
  card_note_type_id :: "card \<Rightarrow> nat"
  Forvo_init :: "system \<Rightarrow> string \<Rightarrow> string \<Rightarrow> exn option"
  forvo_pronunciations :: "system \<Rightarrow> string \<Rightarrow> string \<Rightarrow> exn + pronunciation list"
  download_pronunciation :: "system \<Rightarrow> pronunciation \<Rightarrow> exn + string"
  jisho_reading :: "system \<Rightarrow> string \<Rightarrow> exn + string"
  japanesePod101 :: "system \<Rightarrow> string \<Rightarrow> string \<Rightarrow> exn + string"
  md5 :: "string \<Rightarrow> string"
  media_add_file :: "system \<Rightarrow> string \<Rightarrow> string \<Rightarrow> exn + string"
  note_flush :: "system \<Rightarrow> card \<Rightarrow> exn option"
  card_note :: "system \<Rightarrow> card \<Rightarrow> exn option"
  write_failure_log :: "system \<Rightarrow> card \<Rightarrow> exn \<Rightarrow> exn option"

text \<open>\<^verbatim>\<open>Thread.__init__\<close>: the instance attributes are set, the class's list is not touched.\<close>

definition Thread_init :: "card list \<Rightarrow> system \<Rightarrow> system" where
  "Thread_init cs s =
     s\<lparr>cards := cs, cnt := 0, status := True, is_cancelled := False, skipped_cards := 0,
       failed := [], pc := AtStart, change_value := [], log_emitted := []\<rparr>"

subsection \<open>Notes\<close>

definition note_contains :: "note_fields \<Rightarrow> string \<Rightarrow> bool" where
  "note_contains n k = (map_of n k \<noteq> None)"

text \<open>Read only after the membership test, as in the source.\<close>

definition note_get :: "note_fields \<Rightarrow> string \<Rightarrow> string" where
  "note_get n k = (case map_of n k of Some v \<Rightarrow> v | None \<Rightarrow> [])"

definition note_set :: "note_fields \<Rightarrow> string \<Rightarrow> string \<Rightarrow> note_fields" where
  "note_set n k v = map (\<lambda>(k', v'). if k' = k then (k', v) else (k', v')) n"

text \<open>\<^verbatim>\<open>fields[0]\<close>: index 0 of an empty list raises \<^verbatim>\<open>IndexError\<close>.\<close>

definition first_field :: "note_fields \<Rightarrow> exn + string" where
  "first_field n = (case n of [] \<Rightarrow> Inl IndexError | (k, v) # _ \<Rightarrow> Inr v)"

definition sound_ref :: "string \<Rightarrow> string" where
  "sound_ref name = ''[sound:'' @ name @ '']''"

definition emit :: "log_line \<Rightarrow> system \<Rightarrow> system" where
  "emit l s = s\<lparr>log_emitted := log_emitted s @ [l]\<rparr>"

text \<open>
  The write of the sound reference into the audio field: appended when
  \<^verbatim>\<open>appendAudio\<close> is set, placed otherwise.
\<close>

definition write_sound :: "bool \<Rightarrow> card \<Rightarrow> string \<Rightarrow> string \<Rightarrow> system \<Rightarrow> system" where
  "write_sound append_audio c audio_field name s =
     (if append_audio
      then emit AppendedSound
             (s\<lparr>note_of := (note_of s)(c := note_set (note_of s c) audio_field
                                          (note_get (note_of s c) audio_field @ sound_ref name))\<rparr>)
      else emit PlacedSound
             (s\<lparr>note_of := (note_of s)(c := note_set (note_of s c) audio_field (sound_ref name))\<rparr>))"

subsection \<open>The two provider paths\<close>

definition placeholder_md5 :: string where
  "placeholder_md5 = ''7e2c2f954ef6051373ba916f000168dc''"

text \<open>
  The inner \<^verbatim>\<open>try\<close> of the Japanese path: the download, the checksum test, the media
  store, the write and the flush. Its handler turns every exception into
  \<^verbatim>\<open>NoResultsException\<close>.
\<close>

definition japanesepod_download_body ::
  "env \<Rightarrow> config \<Rightarrow> card \<Rightarrow> string \<Rightarrow> string \<Rightarrow> string \<Rightarrow> system \<Rightarrow> system \<times> (exn + unit)" where
  "japanesepod_download_body e cfg c audio_field query kana s =
     (case japanesePod101 e s query kana of
        Inl x \<Rightarrow> (s, Inl x)
      | Inr payload \<Rightarrow>
          if md5 e payload = placeholder_md5 then (s, Inl NoResultsException)
          else (case media_add_file e s query payload of
                  Inl x \<Rightarrow> (s, Inl x)
                | Inr media_name \<Rightarrow>
                    (case get_config_object cfg ''appendAudio'' of
                       None \<Rightarrow> (s, Inl AttributeError)
                     | Some append_audio \<Rightarrow>
                         let s1 = write_sound append_audio c audio_field media_name s
                         in (case note_flush e s1 c of
                               Some x \<Rightarrow> (s1, Inl x)
                             | None \<Rightarrow> (emit SavedNote s1, Inr ())))))"

definition japanesepod_download ::
  "env \<Rightarrow> config \<Rightarrow> card \<Rightarrow> string \<Rightarrow> string \<Rightarrow> string \<Rightarrow> system \<Rightarrow> system \<times> (exn + unit)" where
  "japanesepod_download e cfg c audio_field query kana s =
     (case japanesepod_download_body e cfg c audio_field query kana s of
        (s1, Inl x) \<Rightarrow> (s1, Inl NoResultsException)
      | (s1, Inr u) \<Rightarrow> (s1, Inr u))"

text \<open>
  The body of the outer \<^verbatim>\<open>try\<close>: only the language \<^verbatim>\<open>ja\<close> takes the Japanese path,
  every other language raises \<^verbatim>\<open>NoResultsException\<close> at once.
\<close>

definition japanesepod_path ::
  "env \<Rightarrow> config \<Rightarrow> card \<Rightarrow> string \<Rightarrow> string \<Rightarrow> string \<Rightarrow> system \<Rightarrow> system \<times> (exn + unit)" where
  "japanesepod_path e cfg c audio_field query language s =
     (if language = ''ja''
      then let s1 = emit TryingJapanesePod101 s
           in (case jisho_reading e s1 query of
                 Inl x \<Rightarrow> (s1, Inl x)
               | Inr kana \<Rightarrow> japanesepod_download e cfg c audio_field query kana s1)
      else (s, Inl NoResultsException))"

text \<open>The handler of the outer \<^verbatim>\<open>try\<close>: the search on Forvo, the selection, the write.\<close>

definition forvo_path ::
  "env \<Rightarrow> config \<Rightarrow> card \<Rightarrow> string \<Rightarrow> string \<Rightarrow> string \<Rightarrow> system \<Rightarrow> system \<times> (exn + unit)" where
  "forvo_path e cfg c audio_field query language s =
     (case forvo_pronunciations e s query language of
        Inl x \<Rightarrow> (s, Inl x)
      | Inr results \<Rightarrow>
          (case select_top results of
             Inl x \<Rightarrow> (s, Inl x)
           | Inr top_p \<Rightarrow>
               let s1 = emit (SelectedPronunciation (user top_p) (votes top_p)) s
               in (case download_pronunciation e s1 top_p of
                     Inl x \<Rightarrow> (s1, Inl x)
                   | Inr audio \<Rightarrow>
                       let s2 = emit DownloadedPronunciation s1
                       in (case get_config_object cfg ''appendAudio'' of
                             None \<Rightarrow> (s2, Inl AttributeError)
                           | Some append_audio \<Rightarrow>
                               let s3 = write_sound append_audio c audio_field audio s2
                               in (case note_flush e s3 c of
                                     Some x \<Rightarrow> (s3, Inl x)
                                   | None \<Rightarrow> (emit SavedNote s3, Inr ()))))))"

definition acquire ::
  "env \<Rightarrow> config \<Rightarrow> card \<Rightarrow> string \<Rightarrow> string \<Rightarrow> string \<Rightarrow> system \<Rightarrow> system \<times> (exn + unit)" where
  "acquire e cfg c audio_field query language s =
     (case japanesepod_path e cfg c audio_field query language s of
        (s1, Inr u) \<Rightarrow> (s1, Inr u)
      | (s1, Inl x) \<Rightarrow> forvo_path e cfg c audio_field query language s1)"

subsection \<open>One card\<close>

datatype outcome = Completed | Skipped | Raised exn

text \<open>
  The body of the \<^verbatim>\<open>try\<close> statement of the loop, for one card. \<^verbatim>\<open>Skipped\<close> is the
  \<^verbatim>\<open>continue\<close> of the skip-existing branch, \<^verbatim>\<open>Raised\<close> an exception that leaves the
  body, \<^verbatim>\<open>Completed\<close> the normal end.
\<close>

definition try_body :: "env \<Rightarrow> config \<Rightarrow> card \<Rightarrow> system \<Rightarrow> system \<times> outcome" where
  "try_body e cfg c s =
     (case get_note_type_specific_config_object cfg ''searchField'' (card_note_type_id e c) of
        None \<Rightarrow> (s, Raised AttributeError)
      | Some query_field \<Rightarrow>
     (case get_note_type_specific_config_object cfg ''audioField'' (card_note_type_id e c) of
        None \<Rightarrow> (s, Raised AttributeError)
      | Some audio_field \<Rightarrow>
          if \<not> note_contains (note_of s c) query_field
          then (s, Raised (FieldNotFoundException query_field))
          else if \<not> note_contains (note_of s c) audio_field
          then (s, Raised (FieldNotFoundException audio_field))
          else
            let query = note_get (note_of s c) query_field
            in (case get_deck_specific_config_object cfg ''language'' (card_did e c) of
                  None \<Rightarrow> (s, Raised AttributeError)
                | Some language \<Rightarrow>
                    let s1 = emit (NextCard query language) s
                    in if skip_existing s1 \<and> length (note_get (note_of s1 c) audio_field) > 0
                       then (s1\<lparr>skipped_cards := skipped_cards s1 + 1\<rparr>, Skipped)
                       else (case Forvo_init e s1 query language of
                               Some x \<Rightarrow> (s1, Raised x)
                             | None \<Rightarrow>
                                 (case acquire e cfg c audio_field query language s1 of
                                    (s2, Inr u) \<Rightarrow> (s2, Completed)
                                  | (s2, Inl x) \<Rightarrow> (s2, Raised x))))))"

text \<open>
  The handler of the loop's \<^verbatim>\<open>try\<close>, statement by statement: the failure is appended
  to \<^verbatim>\<open>failed\<close>; the log line is built from \<^verbatim>\<open>card.note().fields[0]\<close> and emitted;
  the failure log is opened and the trace written. No \<^verbatim>\<open>try\<close> is around the handler:
  the second component is the exception that one of its statements raises, which then
  leaves \<^verbatim>\<open>run\<close>, and the state is the one reached at that statement.
\<close>

definition record_failure :: "env \<Rightarrow> card \<Rightarrow> exn \<Rightarrow> system \<Rightarrow> system \<times> exn option" where
  "record_failure e c x s =
     (let s1 = s\<lparr>failed := failed s @ [(c, x)]\<rparr>
      in (case card_note e s1 c of
            Some y \<Rightarrow> (s1, Some y)
          | None \<Rightarrow>
              (case first_field (note_of s1 c) of
                 Inl y \<Rightarrow> (s1, Some y)
               | Inr v \<Rightarrow>
                   let s2 = emit (ErrorLine v x) s1
                   in (case write_failure_log e s2 c x of
                         Some y \<Rightarrow> (s2, Some y)
                       | None \<Rightarrow> (s2\<lparr>error_log := error_log s2 @ [(c, x)]\<rparr>, None)))))"

text \<open>The four statements after the \<^verbatim>\<open>try\<close> statement.\<close>

definition finish_card :: "card \<Rightarrow> system \<Rightarrow> system" where
  "finish_card c s =
     (let s1 = s\<lparr>done_cards := done_cards s @ [c]\<rparr>;
          s2 = s1\<lparr>cnt := cnt s1 + 1\<rparr>;
          s3 = s2\<lparr>change_value := change_value s2 @ [cnt s2]\<rparr>
      in s3\<lparr>slept := slept s3 + 1000\<rparr>)"

definition Forvo_cleanup :: "system \<Rightarrow> system" where
  "Forvo_cleanup s = s\<lparr>cleanups := cleanups s + 1\<rparr>"

text \<open>
  \<open>same_control s s'\<close>: the two states agree on everything but the notes, the log signal
  and the count of skipped cards.
\<close>

definition same_control :: "system \<Rightarrow> system \<Rightarrow> bool" where
  "same_control s s' =
     (failed s' = failed s \<and> cnt s' = cnt s \<and> done_cards s' = done_cards s
      \<and> cards s' = cards s \<and> is_cancelled s' = is_cancelled s \<and> status s' = status s
      \<and> change_value s' = change_value s \<and> error_log s' = error_log s
      \<and> cleanups s' = cleanups s \<and> slept s' = slept s
      \<and> skip_existing s' = skip_existing s \<and> pc s' = pc s)"

subsection \<open>The worker and the controller\<close>

text \<open>
  \<^verbatim>\<open>run\<close> in steps. The controller (the dialog's buttons) runs between the steps of
  the worker. The worker reads the two flags only at the top of an iteration, so one step
  is the top of an iteration (the test of \<^verbatim>\<open>is_cancelled\<close>, then the test of
  \<^verbatim>\<open>_status\<close>), and one step is the rest of the iteration. In \<^verbatim>\<open>Waiting\<close> the worker
  is inside \<^verbatim>\<open>cond.wait\<close>: it has no step of its own and leaves only by a
  \<^verbatim>\<open>wakeAll\<close>. The first step reads the option \<^verbatim>\<open>skipExistingBulkAdd\<close>, outside of
  any \<^verbatim>\<open>try\<close>. An exception raised by the handler of the loop leaves \<^verbatim>\<open>run\<close>.
\<close>

definition worker_step :: "env \<Rightarrow> config \<Rightarrow> system \<Rightarrow> system" where
  "worker_step e cfg s =
     (case pc s of
        AtStart \<Rightarrow>
          (case get_config_object cfg ''skipExistingBulkAdd'' of
             None \<Rightarrow> s\<lparr>pc := Crashed AttributeError\<rparr>
           | Some b \<Rightarrow> s\<lparr>skip_existing := b, pc := AtTop 0\<rparr>)
      | AtTop i \<Rightarrow>
          if i < length (cards s)
          then if is_cancelled s then (Forvo_cleanup s)\<lparr>pc := Finished\<rparr>
               else if \<not> status s then s\<lparr>pc := Waiting i\<rparr>
               else s\<lparr>pc := InBody i\<rparr>
          else (Forvo_cleanup s)\<lparr>pc := Finished\<rparr>
      | Waiting i \<Rightarrow> s
      | InBody i \<Rightarrow>
          if i < length (cards s)
          then let c = cards s ! i
               in (case try_body e cfg c s of
                     (s1, Skipped) \<Rightarrow> s1\<lparr>pc := AtTop (i + 1)\<rparr>
                   | (s1, Raised x) \<Rightarrow>
                       (case record_failure e c x s1 of
                          (s2, Some y) \<Rightarrow> s2\<lparr>pc := Crashed y\<rparr>
                        | (s2, None) \<Rightarrow> (finish_card c s2)\<lparr>pc := AtTop (i + 1)\<rparr>)
                   | (s1, Completed) \<Rightarrow> (finish_card c s1)\<lparr>pc := AtTop (i + 1)\<rparr>)
          else s
      | Finished \<Rightarrow> s
      | Crashed x \<Rightarrow> s)"

definition wakeAll :: "system \<Rightarrow> system" where
  "wakeAll s = (case pc s of Waiting i \<Rightarrow> s\<lparr>pc := InBody i\<rparr> | _ \<Rightarrow> s)"

definition toggle_status :: "system \<Rightarrow> system" where
  "toggle_status s =
     (let s1 = s\<lparr>status := \<not> status s\<rparr>
      in if status s1 then wakeAll s1 else s1)"

definition handle_cancel_click :: "system \<Rightarrow> system" where
  "handle_cancel_click s = (s\<lparr>is_cancelled := True\<rparr>)\<lparr>status := True\<rparr>"

datatype event = Worker | PauseButton | CancelButton

fun step :: "env \<Rightarrow> config \<Rightarrow> event \<Rightarrow> system \<Rightarrow> system" where
  "step e cfg Worker s = worker_step e cfg s"
| "step e cfg PauseButton s = toggle_status s"
| "step e cfg CancelButton s = handle_cancel_click s"

fun exec :: "env \<Rightarrow> config \<Rightarrow> event list \<Rightarrow> system \<Rightarrow> system" where
  "exec e cfg [] s = s"
| "exec e cfg (ev # evs) s = exec e cfg evs (step e cfg ev s)"

subsection \<open>The review\<close>

datatype report =
    FailedDownloadsDialog "(card \<times> exn) list" nat
  | AllFinished
  | AllFinishedSkipped nat

definition review_downloads :: "system \<Rightarrow> system \<times> report" where
  "review_downloads s =
     (if length (failed s) > 0
      then (s, FailedDownloadsDialog (failed s) (skipped_cards s))
      else if is_cancelled s
      then let s1 = s\<lparr>failed := failed s @
                         map (\<lambda>c. (c, DownloadCancelledException))
                           (filter (\<lambda>c. c \<notin> set (done_cards s)) (cards s))\<rparr>
           in (s1, FailedDownloadsDialog (failed s1) (skipped_cards s1))
      else if skipped_cards s = 0 then (s, AllFinished)
      else (s, AllFinishedSkipped (skipped_cards s)))"

subsection \<open>The resolution of missing fields and languages\<close>

text \<open>
  Before the worker starts, the dialog asks for every missing mapping. A dialog that is
  shown is a \<^verbatim>\<open>request\<close>; the answer to the \<open>k\<close>-th dialog shown is \<open>answers k\<close>,
  \<^verbatim>\<open>None\<close> when the user closes the dialog without a choice. \<^verbatim>\<open>stores\<close> keeps,
  for every dialog shown, the configuration as it was at that moment. \<^verbatim>\<open>shown\<close> are the
  messages of \<^verbatim>\<open>showInfo\<close>, \<^verbatim>\<open>started\<close> tells that \<^verbatim>\<open>self.th.start()\<close> was
  called. \<^verbatim>\<open>list(set(...))\<close> lists a set in an order Python does not fix; the listing
  is the parameter \<open>list_set\<close>.
\<close>

datatype request = FieldSelector nat string | LanguageSelector nat

record bulk_add =
  unique_cards :: "card list"
  conf :: config
  asked :: "request list"
  stores :: "config list"
  shown :: "string list"
  started :: bool

definition start_downloads :: "bulk_add \<Rightarrow> bulk_add" where
  "start_downloads d = d\<lparr>started := True\<rparr>"

definition no_language_msg :: string where
  "no_language_msg = ''Cancelled download because no language was selected.''"

definition no_field_msg :: string where
  "no_field_msg = ''Cancelled download because field wasn't selected.''"

text \<open>
  \<^verbatim>\<open>select_lang\<close> and \<^verbatim>\<open>select_field\<close> take the last element of the list, and
  \<^verbatim>\<open>missing[len(missing) - 1]\<close> raises \<^verbatim>\<open>IndexError\<close> on an empty list.
\<close>

function select_lang :: "(nat \<Rightarrow> string option) \<Rightarrow> nat list \<Rightarrow> bulk_add \<Rightarrow> exn + bulk_add" where
  "select_lang answers missing d =
     (if missing = [] then Inl IndexError
      else
        let deck_id = last missing;
            d1 = d\<lparr>asked := asked d @ [LanguageSelector deck_id],
                    stores := stores d @ [conf d]\<rparr>
        in (case answers (length (asked d)) of
              Some selected_lang \<Rightarrow>
                let d2 = d1\<lparr>conf := set_deck_specific_config_object (conf d1) ''language''
                                        selected_lang deck_id\<rparr>
                in if length missing > 1
                   then select_lang answers (butlast missing) d2
                   else Inr (start_downloads d2)
            | None \<Rightarrow> Inr (d1\<lparr>shown := shown d1 @ [no_language_msg]\<rparr>)))"
  by pat_completeness auto
termination
  by (relation "measure (\<lambda>(answers, missing, d). length missing)") auto

declare select_lang.simps [simp del]

definition missing_decks :: "(nat list \<Rightarrow> nat list) \<Rightarrow> env \<Rightarrow> bulk_add \<Rightarrow> nat list" where
  "missing_decks list_set e d =
     list_set (map (card_did e)
       (filter (\<lambda>c. get_deck_specific_config_object (conf d) ''language'' (card_did e c) = None)
          (unique_cards d)))"

definition ensure_languages ::
  "(nat list \<Rightarrow> nat list) \<Rightarrow> env \<Rightarrow> (nat \<Rightarrow> string option) \<Rightarrow> bulk_add \<Rightarrow> exn + bulk_add" where
  "ensure_languages list_set e answers d =
     (let missing = missing_decks list_set e d
      in if length missing > 0 then select_lang answers missing d
         else Inr (start_downloads d))"

definition missing_note_types ::
  "(nat list \<Rightarrow> nat list) \<Rightarrow> env \<Rightarrow> string \<Rightarrow> bulk_add \<Rightarrow> nat list" where
  "missing_note_types list_set e field_type d =
     list_set (map (card_note_type_id e)
       (filter (\<lambda>c. get_note_type_specific_config_object (conf d) field_type
                       (card_note_type_id e c) = None)
          (unique_cards d)))"

function select_field ::
  "(nat list \<Rightarrow> nat list) \<Rightarrow> env \<Rightarrow> (nat \<Rightarrow> string option) \<Rightarrow> nat list \<Rightarrow> string \<Rightarrow> bulk_add
     \<Rightarrow> exn + bulk_add" where
  "select_field list_set e answers missing_ids field_type d =
     (if missing_ids = [] then Inl IndexError
      else
        let note_type = last missing_ids;
            d1 = d\<lparr>asked := asked d @ [FieldSelector note_type field_type],
                    stores := stores d @ [conf d]\<rparr>
        in (case answers (length (asked d)) of
              Some selected_field \<Rightarrow>
                let d2 = d1\<lparr>conf := set_note_type_specific_config_object (conf d1) field_type
                                        selected_field note_type\<rparr>
                in if length missing_ids > 1
                   then select_field list_set e answers (butlast missing_ids) field_type d2
                   else if field_type = ''audioField''
                   then ensure_languages list_set e answers d2
                   else
                     let new_missing = missing_note_types list_set e ''audioField'' d2
                     in if length new_missing > 0
                        then select_field list_set e answers new_missing ''audioField'' d2
                        else ensure_languages list_set e answers d2
            | None \<Rightarrow> Inr (d1\<lparr>shown := shown d1 @ [no_field_msg]\<rparr>)))"
  by pat_completeness auto
termination
  by (relation "measures [\<lambda>(l, e, a, m, ft, d). if ft = ''audioField'' then 0 else 1,
                          \<lambda>(l, e, a, m, ft, d). length m]") auto

declare select_field.simps [simp del]

definition ensure_fields ::
  "(nat list \<Rightarrow> nat list) \<Rightarrow> env \<Rightarrow> (nat \<Rightarrow> string option) \<Rightarrow> bulk_add \<Rightarrow> exn + bulk_add" where
  "ensure_fields list_set e answers d =
     (let missing = missing_note_types list_set e ''searchField'' d
      in if length missing > 0
         then select_field list_set e answers missing ''searchField'' d
         else
           let new_missing = missing_note_types list_set e ''audioField'' d
           in if length new_missing > 0
              then select_field list_set e answers new_missing ''audioField'' d
              else Inr (start_downloads d))"

text \<open>The note types for which a dialog for the field \<open>ft\<close> was shown, in order.\<close>

fun field_requests :: "string \<Rightarrow> request list \<Rightarrow> nat list" where
  "field_requests ft [] = []"
| "field_requests ft (FieldSelector n ft' # rs) =
     (if ft' = ft then n # field_requests ft rs else field_requests ft rs)"
| "field_requests ft (LanguageSelector k # rs) = field_requests ft rs"

text \<open>
  \<open>persisted answers d\<close>: every answer given so far is in the configuration, under its
  field name and note type (or under the deck, for a language), by the time the next
  dialog is shown, and at the end for the last dialog.
\<close>

definition persisted :: "(nat \<Rightarrow> string option) \<Rightarrow> bulk_add \<Rightarrow> bool" where
  "persisted answers d =
     (length (stores d) = length (asked d) \<and>
      (\<forall>k<length (asked d).
         (case asked d ! k of
            FieldSelector n g \<Rightarrow>
              get_note_type_specific_config_object ((stores d @ [conf d]) ! Suc k) g n
                = answers k
          | LanguageSelector deck \<Rightarrow>
              get_deck_specific_config_object ((stores d @ [conf d]) ! Suc k) ''language'' deck
                = answers k)))"

subsection \<open>The cards of a dialog\<close>

text \<open>
  \<^verbatim>\<open>on_browser_ctx_menu_click\<close> of \<^verbatim>\<open>__init__.py\<close>: the selected card ids are turned
  into Card objects by \<^verbatim>\<open>browser.mw.col.getCard\<close>, one card is kept for each note, and
  the dialog, with its one \<^verbatim>\<open>Thread\<close>, is made for these objects. \<^verbatim>\<open>getCard\<close> belongs
  to the host application: it constructs a new Card object on every call. The objects
  made so far are the heap, the address of an object is its position there, and
  \<open>nid_of\<close> is the collection's note id of a card id.
\<close>

record card_obj =
  card_id :: nat
  card_nid :: nat

type_synonym heap = "card_obj list"

definition getCard :: "(nat \<Rightarrow> nat) \<Rightarrow> nat \<Rightarrow> heap \<Rightarrow> card \<times> heap" where
  "getCard nid_of cid h = (length h, h @ [\<lparr>card_id = cid, card_nid = nid_of cid\<rparr>])"

fun get_cards :: "(nat \<Rightarrow> nat) \<Rightarrow> nat list \<Rightarrow> heap \<Rightarrow> card list \<times> heap" where
  "get_cards nid_of [] h = ([], h)"
| "get_cards nid_of (cid # cids) h =
     (case getCard nid_of cid h of
        (c, h1) \<Rightarrow> (case get_cards nid_of cids h1 of (cs, h2) \<Rightarrow> (c # cs, h2)))"

text \<open>The loop over \<^verbatim>\<open>cards\<close>; every card of the list is an object of the heap.\<close>

fun unique_by_note :: "heap \<Rightarrow> card list \<Rightarrow> card list \<Rightarrow> nat list \<Rightarrow> card list" where
  "unique_by_note h [] unique addressed = unique"
| "unique_by_note h (c # cs) unique addressed =
     (if card_nid (h ! c) \<in> set addressed then unique_by_note h cs unique addressed
      else unique_by_note h cs (unique @ [c]) (addressed @ [card_nid (h ! c)]))"

definition on_browser_ctx_menu_click ::
  "(nat \<Rightarrow> nat) \<Rightarrow> nat list \<Rightarrow> heap \<Rightarrow> card list \<times> heap" where
  "on_browser_ctx_menu_click nid_of selected h =
     (case get_cards nid_of selected h of (cs, h1) \<Rightarrow> (unique_by_note h1 cs [] [], h1))"

subsection \<open>A concrete collection\<close>

text \<open>
  A small collection on which the functions are run: every card is in deck 1, whose
  language is \<^verbatim>\<open>ja\<close>, and has note type 10 with the fields \<^verbatim>\<open>Front\<close> and
  \<^verbatim>\<open>Audio\<close>. Card 0 asks for a word Forvo does not know, card 1 has audio already,
  every other card has none. The Japanese provider answers every request with its
  placeholder file.
\<close>

definition ex_config :: config where
  "ex_config =
     \<lparr>global_opts = [''skipExistingBulkAdd'' \<mapsto> True, ''appendAudio'' \<mapsto> False],
      deck_opts = [(''language'', 1) \<mapsto> ''ja''],
      note_type_opts = [(''searchField'', 10) \<mapsto> ''Front'', (''audioField'', 10) \<mapsto> ''Audio'']\<rparr>"

definition ex_results :: "pronunciation list" where
  "ex_results =
     [\<lparr>ident = 0, user = ''a'', votes = 3\<rparr>, \<lparr>ident = 1, user = ''b'', votes = 7\<rparr>,
      \<lparr>ident = 2, user = ''c'', votes = 7\<rparr>, \<lparr>ident = 3, user = ''d'', votes = 1\<rparr>]"

definition ex_env :: env where
  "ex_env =
     \<lparr>card_did = (\<lambda>c. 1),
      card_note_type_id = (\<lambda>c. 10),
      Forvo_init = (\<lambda>s q l. None),
      forvo_pronunciations = (\<lambda>s q l. if q = ''bad'' then Inl NoResultsException else Inr ex_results),
      download_pronunciation = (\<lambda>s p. Inr (user p)),
      jisho_reading = (\<lambda>s q. Inr ''kana''),
      japanesePod101 = (\<lambda>s q k. Inr ''none''),
      md5 = (\<lambda>p. placeholder_md5),
      media_add_file = (\<lambda>s q p. Inr ''ja.mp3''),
      note_flush = (\<lambda>s c. None),
      card_note = (\<lambda>s c. None),
      write_failure_log = (\<lambda>s c x. None)\<rparr>"

definition ex_notes :: "card \<Rightarrow> note_fields" where
  "ex_notes c =
     (if c = 0 then [(''Front'', ''bad''), (''Audio'', [])]
      else if c = 1 then [(''Front'', ''neko''), (''Audio'', ''[sound:neko.mp3]'')]
      else [(''Front'', ''inu''), (''Audio'', [])])"

definition ex_system :: system where
  "ex_system =
     \<lparr>cards = [], cnt = 0, status = True, is_cancelled = False, skipped_cards = 0,
      failed = [], skip_existing = False, pc = AtStart, done_cards = [], note_of = ex_notes,
      change_value = [], log_emitted = [], error_log = [], cleanups = 0, slept = 0\<rparr>"

text \<open>
  Five cards over the three note types 10, 11 and 12, none of which has a field
  assigned, in the two decks 1 and 2, neither of which has a language.
\<close>

definition ex_env3 :: env where
  "ex_env3 = ex_env\<lparr>card_did := (\<lambda>c. 1 + c mod 2), card_note_type_id := (\<lambda>c. 10 + c mod 3)\<rparr>"

definition ex_dialog :: bulk_add where
  "ex_dialog =
     \<lparr>unique_cards = [0, 1, 2, 3, 4],
      conf = \<lparr>global_opts = Map.empty, deck_opts = Map.empty, note_type_opts = Map.empty\<rparr>,
      asked = [], stores = [], shown = [], started = False\<rparr>"


definition ex_env_log_fails :: env where
  "ex_env_log_fails = ex_env\<lparr>write_failure_log := (\<lambda>s c x. Some (OtherException ''OSError''))\<rparr>"

text \<open>
  The card with id 7 is selected in the browser and the dialog opened twice, from an empty
  heap; every note is a plain one without audio. The first batch runs to its end, the
  second is cancelled before its first card.
\<close>

definition ex_system_plain :: system where
  "ex_system_plain = ex_system\<lparr>note_of := (\<lambda>c. [(''Front'', ''inu''), (''Audio'', [])])\<rparr>"

definition ex_click1 :: "card list \<times> heap" where
  "ex_click1 = on_browser_ctx_menu_click (\<lambda>cid. cid) [7] []"

definition ex_batch1 :: system where
  "ex_batch1 =
     exec ex_env ex_config [Worker, Worker, Worker, Worker]
       (Thread_init (fst ex_click1) ex_system_plain)"

definition ex_click2 :: "card list \<times> heap" where
  "ex_click2 = on_browser_ctx_menu_click (\<lambda>cid. cid) [7] (snd ex_click1)"

definition ex_batch2 :: system where
  "ex_batch2 =
     exec ex_env ex_config [Worker, CancelButton, Worker]
       (Thread_init (fst ex_click2) ex_batch1)"

section \<open>Properties\<close>

subsection \<open>Selection of the pronunciation: the most votes, the last of equals\<close>

lemma last_filter_sat: "xs \<noteq> [] \<Longrightarrow> P (last xs) \<Longrightarrow> last (filter P xs) = last xs"
  by (induction xs rule: rev_induct) auto

lemma sorted_le_last: "sorted xs \<Longrightarrow> x \<in> set xs \<Longrightarrow> x \<le> last xs"
  by (induction xs) auto

lemma sort_key_nonempty: "xs \<noteq> [] \<Longrightarrow> sort_key f xs \<noteq> []"
  by (metis length_0_conv length_sort)

lemma sort_key_last_max:
  assumes "xs \<noteq> []"
  shows "f (last (sort_key f xs)) = Max (f ` set xs)"
proof -
  let ?s = "sort_key f xs"
  have ne: "?s \<noteq> []" using assms by (rule sort_key_nonempty)
  have srt: "sorted (map f ?s)" by simp
  have up: "\<And>y. y \<in> f ` set xs \<Longrightarrow> y \<le> f (last ?s)"
  proof -
    fix y assume "y \<in> f ` set xs"
    then have "y \<in> set (map f ?s)" by simp
    then have "y \<le> last (map f ?s)" using srt by (rule sorted_le_last[rotated])
    then show "y \<le> f (last ?s)" using ne by (simp add: last_map)
  qed
  have "last ?s \<in> set ?s" using ne by (rule last_in_set)
  then have mem: "f (last ?s) \<in> f ` set xs" by simp
  show ?thesis using up mem by (intro Max_eqI[symmetric]) auto
qed

lemma sort_key_last_stable:
  assumes "xs \<noteq> []"
  shows "last (sort_key f xs) = last (filter (\<lambda>x. f x = Max (f ` set xs)) xs)"
proof -
  let ?s = "sort_key f xs"
  let ?P = "\<lambda>x. f x = Max (f ` set xs)"
  have ne: "?s \<noteq> []" using assms by (rule sort_key_nonempty)
  have "?P (last ?s)" using assms by (rule sort_key_last_max)
  then have "last (filter ?P ?s) = last ?s" using ne by (simp add: last_filter_sat)
  moreover have "filter ?P ?s = filter ?P xs" by (rule sort_key_stable)
  ultimately show ?thesis by simp
qed

lemma select_top_empty: "select_top [] = Inl IndexError"
  by (simp add: select_top_def)

lemma select_top_maximum:
  assumes "results \<noteq> []"
  shows "\<exists>p. select_top results = Inr p \<and> p \<in> set results
           \<and> votes p = Max (votes ` set results)
           \<and> p = last (filter (\<lambda>r. votes r = Max (votes ` set results)) results)"
proof -
  let ?s = "sort_key votes results"
  have ne: "?s \<noteq> []" using assms by (rule sort_key_nonempty)
  have "last ?s \<in> set ?s" using ne by (rule last_in_set)
  then have "last ?s \<in> set results" by simp
  moreover have "select_top results = Inr (last ?s)" using ne by (simp add: select_top_def)
  ultimately show ?thesis
    using sort_key_last_max[OF assms, of votes] sort_key_last_stable[OF assms, of votes] by simp
qed

text \<open>
  Claim C6. On a candidate list with the vote counts 3, 7, 7, 1 the selection returns a
  candidate with 7 votes, the maximum; of the two candidates with 7 votes it is the later
  one, the third of the list. The selection is a function of the list, so the same list
  gives the same candidate every time. In general (\<open>select_top_maximum\<close>) the selected
  candidate is the last one of the list among those with the most votes.
\<close>

theorem select_top_3771:
  assumes "map votes ps = [3, 7, 7, 1]"
  shows "select_top ps = Inr (ps ! 2) \<and> votes (ps ! 2) = 7
           \<and> votes (ps ! 2) = Max (votes ` set ps)"
proof -
  from assms obtain a b c d where ps: "ps = [a, b, c, d]"
    and v: "votes a = 3" "votes b = 7" "votes c = 7" "votes d = 1"
    by (auto simp: map_eq_Cons_conv)
  show ?thesis using v by (simp add: ps select_top_def)
qed

theorem select_top_3771_witness:
  "map votes ex_results = [3, 7, 7, 1]
     \<and> select_top ex_results = Inr \<lparr>ident = 2, user = ''c'', votes = 7\<rparr>"
  using select_top_3771[of ex_results] by (simp add: ex_results_def)

subsection \<open>What one card leaves untouched\<close>

lemma same_control_refl [simp]: "same_control s s"
  by (simp add: same_control_def)

lemma same_control_trans: "same_control s s1 \<Longrightarrow> same_control s1 s2 \<Longrightarrow> same_control s s2"
  by (simp add: same_control_def)

lemma same_control_emit [simp]: "same_control s (emit l s1) = same_control s s1"
  by (simp add: same_control_def emit_def)

lemma same_control_write_sound [simp]:
  "same_control s (write_sound a c f n s1) = same_control s s1"
  by (simp add: same_control_def write_sound_def emit_def)

lemma same_control_skipped [simp]:
  "same_control s (s1\<lparr>skipped_cards := k\<rparr>) = same_control s s1"
  by (simp add: same_control_def)

lemma japanesepod_download_body_frame:
  "same_control s0 s \<Longrightarrow> japanesepod_download_body e cfg c f q k s = (s1, r) \<Longrightarrow> same_control s0 s1"
  unfolding japanesepod_download_body_def
  by (auto simp: Let_def split: sum.splits option.splits if_splits)

lemma japanesepod_download_frame:
  "same_control s0 s \<Longrightarrow> japanesepod_download e cfg c f q k s = (s1, r) \<Longrightarrow> same_control s0 s1"
  unfolding japanesepod_download_def
  by (auto split: sum.splits prod.splits dest: japanesepod_download_body_frame)

lemma japanesepod_path_frame:
  "same_control s0 s \<Longrightarrow> japanesepod_path e cfg c f q l s = (s1, r) \<Longrightarrow> same_control s0 s1"
  unfolding japanesepod_path_def
  by (auto simp: Let_def split: sum.splits if_splits
      dest: japanesepod_download_frame[rotated])

lemma forvo_path_frame:
  "same_control s0 s \<Longrightarrow> forvo_path e cfg c f q l s = (s1, r) \<Longrightarrow> same_control s0 s1"
  unfolding forvo_path_def
  by (auto simp: Let_def split: sum.splits option.splits if_splits)

lemma acquire_frame:
  "same_control s0 s \<Longrightarrow> acquire e cfg c f q l s = (s1, r) \<Longrightarrow> same_control s0 s1"
  unfolding acquire_def
  by (auto split: sum.splits prod.splits dest: japanesepod_path_frame forvo_path_frame)

lemma acquire_after_emit:
  "acquire e cfg c f q l (emit x s) = (s1, r) \<Longrightarrow> same_control s s1"
  by (rule acquire_frame[of s "emit x s"]) simp_all

lemma try_body_frame:
  "try_body e cfg c s = (s1, r) \<Longrightarrow> same_control s s1"
  unfolding try_body_def
  by (auto simp: Let_def split: sum.splits option.splits if_splits prod.splits
      dest: acquire_after_emit)

subsection \<open>An exception of a card and the handler of the loop\<close>

lemma record_failure_failed:
  "failed (fst (record_failure e c x s)) = failed s @ [(c, x)]"
  by (simp add: record_failure_def Let_def emit_def split: option.splits sum.splits)

lemma record_failure_frame:
  "done_cards (fst (record_failure e c x s)) = done_cards s"
  "cnt (fst (record_failure e c x s)) = cnt s"
  "change_value (fst (record_failure e c x s)) = change_value s"
  "cards (fst (record_failure e c x s)) = cards s"
  "is_cancelled (fst (record_failure e c x s)) = is_cancelled s"
  "status (fst (record_failure e c x s)) = status s"
  "skipped_cards (fst (record_failure e c x s)) = skipped_cards s"
  "note_of (fst (record_failure e c x s)) = note_of s"
  by (simp_all add: record_failure_def Let_def emit_def split: option.splits sum.splits)

lemma record_failure_result:
  assumes "record_failure e c x s = (s2, r)"
  shows "failed s2 = failed s @ [(c, x)] \<and> done_cards s2 = done_cards s \<and> cnt s2 = cnt s
     \<and> change_value s2 = change_value s \<and> is_cancelled s2 = is_cancelled s
     \<and> cards s2 = cards s"
  using record_failure_failed[of e c x s] record_failure_frame[of e c x s] assms by simp


lemma worker_step_raised:
  assumes "pc s = InBody i" and "i < length (cards s)"
    and "try_body e cfg (cards s ! i) s = (s1, Raised x)"
  shows "worker_step e cfg s =
           (case snd (record_failure e (cards s ! i) x s1) of
              Some y \<Rightarrow> (fst (record_failure e (cards s ! i) x s1))\<lparr>pc := Crashed y\<rparr>
            | None \<Rightarrow> (finish_card (cards s ! i) (fst (record_failure e (cards s ! i) x s1)))
                        \<lparr>pc := AtTop (i + 1)\<rparr>)"
  using assms
  by (cases "record_failure e (cards s ! i) x s1")
     (simp add: worker_step_def Let_def split: option.splits)

lemma crashed_stays: "pc s = Crashed y \<Longrightarrow> pc (exec e cfg evs s) = Crashed y"
proof (induction evs arbitrary: s)
  case Nil
  then show ?case by simp
next
  case (Cons ev evs)
  have "pc (step e cfg ev s) = Crashed y"
    using Cons.prems
    by (cases ev)
       (simp_all add: worker_step_def toggle_status_def wakeAll_def handle_cancel_click_def
          Let_def)
  then show ?case using Cons.IH by simp
qed

text \<open>
  When a statement of the handler raises, the failure is in \<^verbatim>\<open>failed\<close> already, and
  \<^verbatim>\<open>run\<close> is left by that exception: no later card is worked on.
\<close>

lemma handler_exception_leaves_run:
  assumes "pc s = InBody i" and "i < length (cards s)"
    and "snd (try_body e cfg (cards s ! i) s) = Raised x"
    and "snd (record_failure e (cards s ! i) x (fst (try_body e cfg (cards s ! i) s))) = Some y"
  shows "failed (worker_step e cfg s) = failed s @ [(cards s ! i, x)]"
    and "pc (exec e cfg evs (worker_step e cfg s)) = Crashed y"
proof -
  let ?c = "cards s ! i"
  obtain s1 where t: "try_body e cfg ?c s = (s1, Raised x)"
    using assms(3) by (cases "try_body e cfg ?c s") simp
  have fr: "same_control s s1" using t by (rule try_body_frame)
  have w: "worker_step e cfg s = (fst (record_failure e ?c x s1))\<lparr>pc := Crashed y\<rparr>"
    using worker_step_raised[OF assms(1,2) t] assms(4) t by simp
  show "failed (worker_step e cfg s) = failed s @ [(?c, x)]"
    using fr by (simp add: w record_failure_failed same_control_def)
  have "pc (worker_step e cfg s) = Crashed y" by (simp add: w)
  then show "pc (exec e cfg evs (worker_step e cfg s)) = Crashed y"
    by (rule crashed_stays)
qed

lemmas ex_defs =
  Thread_init_def ex_system_def ex_config_def ex_env_def ex_notes_def ex_results_def
  worker_step_def toggle_status_def wakeAll_def handle_cancel_click_def
  try_body_def acquire_def japanesepod_path_def japanesepod_download_def
  japanesepod_download_body_def forvo_path_def select_top_def placeholder_md5_def
  get_config_object_def get_deck_specific_config_object_def
  get_note_type_specific_config_object_def note_contains_def note_get_def note_set_def
  first_field_def sound_ref_def emit_def write_sound_def record_failure_def finish_card_def
  Forvo_cleanup_def review_downloads_def Let_def




text \<open>
  The same with a failure log that cannot be written: the failure of card 0 is appended
  and its line emitted, the opening of the log file raises, and \<^verbatim>\<open>run\<close> is left.
\<close>

lemma failure_log_error_leaves_run:
  "pc (exec ex_env_log_fails ex_config [Worker, Worker, Worker] (Thread_init [0, 2] ex_system))
     = Crashed (OtherException ''OSError'')
   \<and> failed (exec ex_env_log_fails ex_config [Worker, Worker, Worker]
        (Thread_init [0, 2] ex_system)) = [(0, NoResultsException)]
   \<and> done_cards (exec ex_env_log_fails ex_config [Worker, Worker, Worker, Worker, Worker]
        (Thread_init [0, 2] ex_system)) = []"
  by (simp add: ex_defs ex_env_log_fails_def)

subsection \<open>The Japanese path and the fall through to Forvo\<close>

lemma japanesepod_download_error:
  "japanesepod_download e cfg c f q k s = (s1, Inl x) \<Longrightarrow> x = NoResultsException"
  by (auto simp: japanesepod_download_def split: prod.splits sum.splits)

lemma placeholder_checksum_fails:
  assumes "jisho_reading e (emit TryingJapanesePod101 s) q = Inr kana"
    and "japanesePod101 e (emit TryingJapanesePod101 s) q kana = Inr payload"
    and "md5 e payload = placeholder_md5"
  shows "japanesepod_path e cfg c f q ''ja'' s =
           (emit TryingJapanesePod101 s, Inl NoResultsException)"
  using assms
  by (simp add: japanesepod_path_def japanesepod_download_def japanesepod_download_body_def
      Let_def)

lemma other_language_fails:
  "l \<noteq> ''ja'' \<Longrightarrow> japanesepod_path e cfg c f q l s = (s, Inl NoResultsException)"
  by (simp add: japanesepod_path_def)

lemma try_body_providers:
  assumes "get_note_type_specific_config_object cfg ''searchField'' (card_note_type_id e c) = Some qf"
    and "get_note_type_specific_config_object cfg ''audioField'' (card_note_type_id e c) = Some af"
    and "note_contains (note_of s c) qf" and "note_contains (note_of s c) af"
    and "get_deck_specific_config_object cfg ''language'' (card_did e c) = Some l"
    and "\<not> (skip_existing s \<and> length (note_get (note_of s c) af) > 0)"
    and "q = note_get (note_of s c) qf"
    and "s1 = emit (NextCard q l) s"
    and "Forvo_init e s1 q l = None"
  shows "try_body e cfg c s =
           (case acquire e cfg c af q l s1 of
              (s2, Inr u) \<Rightarrow> (s2, Completed)
            | (s2, Inl x) \<Rightarrow> (s2, Raised x))"
  using assms by (auto simp: try_body_def Let_def emit_def)

lemma worker_step_failed:
  assumes "pc s = InBody i" and "i < length (cards s)"
  shows "failed (worker_step e cfg s) =
           (case snd (try_body e cfg (cards s ! i) s) of
              Raised x \<Rightarrow> failed s @ [(cards s ! i, x)]
            | _ \<Rightarrow> failed s)"
proof -
  obtain s1 r where t: "try_body e cfg (cards s ! i) s = (s1, r)"
    by (cases "try_body e cfg (cards s ! i) s")
  from try_body_frame[OF t] have f: "failed s1 = failed s" by (simp add: same_control_def)
  show ?thesis using assms t f
    by (cases r)
      (auto simp: worker_step_def Let_def finish_card_def split: prod.splits option.splits
          dest!: record_failure_result)
qed

text \<open>
  Claim C4. For a card whose language is \<^verbatim>\<open>ja\<close>, when the Japanese path fails with
  whatever exception \<open>x\<close>, the Forvo path is run next for the same card, from the state the
  Japanese path left, and its outcome is the outcome of the card: nothing is appended to
  \<^verbatim>\<open>failed\<close> when Forvo succeeds, and the exception of the Forvo path, not \<open>x\<close>, is
  appended when it fails. The placeholder checksum is one such failure
  (\<open>placeholder_checksum_fails\<close>).
\<close>

theorem fallback_failure_falls_through:
  assumes "pc s = InBody i" and "i < length (cards s)" and "c = cards s ! i"
    and "get_note_type_specific_config_object cfg ''searchField'' (card_note_type_id e c) = Some qf"
    and "get_note_type_specific_config_object cfg ''audioField'' (card_note_type_id e c) = Some af"
    and "note_contains (note_of s c) qf" and "note_contains (note_of s c) af"
    and "get_deck_specific_config_object cfg ''language'' (card_did e c) = Some ''ja''"
    and "\<not> (skip_existing s \<and> length (note_get (note_of s c) af) > 0)"
    and "q = note_get (note_of s c) qf"
    and "s1 = emit (NextCard q ''ja'') s"
    and "Forvo_init e s1 q ''ja'' = None"
    and "japanesepod_path e cfg c af q ''ja'' s1 = (s2, Inl x)"
  shows "try_body e cfg c s =
           (case forvo_path e cfg c af q ''ja'' s2 of
              (s3, Inr u) \<Rightarrow> (s3, Completed)
            | (s3, Inl y) \<Rightarrow> (s3, Raised y))
     \<and> failed (worker_step e cfg s) =
           (case snd (forvo_path e cfg c af q ''ja'' s2) of
              Inr u \<Rightarrow> failed s
            | Inl y \<Rightarrow> failed s @ [(c, y)])"
proof -
  have a: "acquire e cfg c af q ''ja'' s1 = forvo_path e cfg c af q ''ja'' s2"
    using assms(13) by (simp add: acquire_def)
  have t: "try_body e cfg c s =
           (case forvo_path e cfg c af q ''ja'' s2 of
              (s3, Inr u) \<Rightarrow> (s3, Completed)
            | (s3, Inl y) \<Rightarrow> (s3, Raised y))"
    using try_body_providers[OF assms(4-12)] a by simp
  have "failed (worker_step e cfg s) =
           (case snd (try_body e cfg c s) of
              Raised x \<Rightarrow> failed s @ [(c, x)]
            | _ \<Rightarrow> failed s)"
    unfolding assms(3) by (rule worker_step_failed[OF assms(1,2)])
  then have "failed (worker_step e cfg s) =
           (case snd (forvo_path e cfg c af q ''ja'' s2) of
              Inr u \<Rightarrow> failed s
            | Inl y \<Rightarrow> failed s @ [(c, y)])"
    unfolding t by (auto split: prod.splits sum.splits)
  with t show ?thesis by simp
qed

theorem fallback_failure_falls_through_witness:
  "japanesepod_path ex_env ex_config 2 ''Audio'' ''inu'' ''ja''
      (emit (NextCard ''inu'' ''ja'')
         (exec ex_env ex_config [Worker, Worker] (Thread_init [2] ex_system)))
     = (emit TryingJapanesePod101 (emit (NextCard ''inu'' ''ja'')
         (exec ex_env ex_config [Worker, Worker] (Thread_init [2] ex_system))),
        Inl NoResultsException)
   \<and> failed (worker_step ex_env ex_config
        (exec ex_env ex_config [Worker, Worker] (Thread_init [2] ex_system))) = []
   \<and> snd (try_body ex_env ex_config 2
        (exec ex_env ex_config [Worker, Worker] (Thread_init [2] ex_system))) = Completed"
proof -
  let ?s = "exec ex_env ex_config [Worker, Worker] (Thread_init [2] ex_system)"
  let ?s1 = "emit (NextCard ''inu'' ''ja'') ?s"
  let ?s2 = "emit TryingJapanesePod101 ?s1"
  have h1: "pc ?s = InBody 0" by (simp add: ex_defs)
  have h2: "0 < length (cards ?s)" by (simp add: ex_defs)
  have h3: "2 = cards ?s ! 0" by (simp add: ex_defs)
  have h4: "get_note_type_specific_config_object ex_config ''searchField''
              (card_note_type_id ex_env 2) = Some ''Front''" by (simp add: ex_defs)
  have h5: "get_note_type_specific_config_object ex_config ''audioField''
              (card_note_type_id ex_env 2) = Some ''Audio''" by (simp add: ex_defs)
  have h6: "note_contains (note_of ?s 2) ''Front''" by (simp add: ex_defs)
  have h7: "note_contains (note_of ?s 2) ''Audio''" by (simp add: ex_defs)
  have h8: "get_deck_specific_config_object ex_config ''language'' (card_did ex_env 2)
              = Some ''ja''" by (simp add: ex_defs)
  have h9: "\<not> (skip_existing ?s \<and> length (note_get (note_of ?s 2) ''Audio'') > 0)"
    by (simp add: ex_defs)
  have h10: "''inu'' = note_get (note_of ?s 2) ''Front''" by (simp add: ex_defs)
  have h11: "?s1 = emit (NextCard ''inu'' ''ja'') ?s" by simp
  have h12: "Forvo_init ex_env ?s1 ''inu'' ''ja'' = None" by (simp add: ex_env_def)
  have h13: "japanesepod_path ex_env ex_config 2 ''Audio'' ''inu'' ''ja'' ?s1
               = (?s2, Inl NoResultsException)"
    by (rule placeholder_checksum_fails[where kana = "''kana''" and payload = "''none''"])
       (simp_all add: ex_env_def)
  have f: "failed ?s = []" by (simp add: ex_defs)
  have p: "snd (forvo_path ex_env ex_config 2 ''Audio'' ''inu'' ''ja'' ?s2) = Inr ()"
    by (simp add: forvo_path_def select_top_def ex_env_def ex_results_def ex_config_def
        get_config_object_def Let_def)
  from fallback_failure_falls_through[OF h1 h2 h3 h4 h5 h6 h7 h8 h9 h10 h11 h12 h13]
  show ?thesis using h13 f p by (auto split: prod.splits sum.splits)
qed

subsection \<open>The list of done cards is shared\<close>

lemma worker_step_done_cards:
  "\<exists>ys. done_cards (worker_step e cfg s) = done_cards s @ ys"
proof (cases "pc s")
  case (InBody i)
  show ?thesis
  proof (cases "i < length (cards s)")
    case True
    obtain s1 r where t: "try_body e cfg (cards s ! i) s = (s1, r)"
      by (cases "try_body e cfg (cards s ! i) s")
    from try_body_frame[OF t] have d: "done_cards s1 = done_cards s"
      by (simp add: same_control_def)
    show ?thesis using InBody True t d
      by (cases r)
        (auto simp: worker_step_def Let_def finish_card_def split: prod.splits option.splits
          dest!: record_failure_result)
  next
    case False
    with InBody show ?thesis by (simp add: worker_step_def)
  qed
qed (auto simp: worker_step_def Forvo_cleanup_def split: option.splits)

lemma step_done_cards: "\<exists>ys. done_cards (step e cfg ev s) = done_cards s @ ys"
proof (cases ev)
  case Worker
  then show ?thesis using worker_step_done_cards by simp
next
  case PauseButton
  then show ?thesis
    by (cases "pc s") (simp_all add: toggle_status_def wakeAll_def Let_def)
next
  case CancelButton
  then show ?thesis by (simp add: handle_cancel_click_def)
qed

lemma exec_done_cards: "\<exists>ys. done_cards (exec e cfg evs s) = done_cards s @ ys"
proof (induction evs arbitrary: s)
  case Nil
  then show ?case by simp
next
  case (Cons ev evs)
  obtain ys where a: "done_cards (step e cfg ev s) = done_cards s @ ys"
    using step_done_cards by blast
  obtain zs where "done_cards (exec e cfg evs (step e cfg ev s)) = done_cards (step e cfg ev s) @ zs"
    using Cons.IH by blast
  with a show ?case by simp
qed

lemma Thread_init_done_cards: "done_cards (Thread_init cs s) = done_cards s"
  by (simp add: Thread_init_def)

lemma review_downloads_failed:
  "failed (fst (review_downloads s)) =
     (if failed s = [] \<and> is_cancelled s
      then map (\<lambda>c. (c, DownloadCancelledException))
             (filter (\<lambda>c. c \<notin> set (done_cards s)) (cards s))
      else failed s)"
  by (simp add: review_downloads_def Let_def)

text \<open>
  Claim C10, as the code has it. \<^verbatim>\<open>done_cards\<close> belongs to the class and is not reset
  when an instance is made: a Card object that is in the list when the first instance has
  run is still in the list the second instance works on, during and after its run, and
  the review of the second instance does not add that object to \<^verbatim>\<open>failed\<close> as
  cancelled, whatever the second run did. The list holds Card objects and
  \<^verbatim>\<open>card not in done_cards\<close> looks for the object.
\<close>

theorem done_cards_shared_by_instances:
  assumes "s1 = exec e cfg evs1 (Thread_init cs1 s0)"
    and "s2 = exec e cfg' evs2 (Thread_init cs2 s1)"
    and "c \<in> set (done_cards s1)"
  shows "done_cards (Thread_init cs2 s1) = done_cards s1
     \<and> c \<in> set (done_cards s2)
     \<and> (c, DownloadCancelledException)
          \<notin> set (drop (length (failed s2)) (failed (fst (review_downloads s2))))"
proof -
  obtain ys where "done_cards s2 = done_cards (Thread_init cs2 s1) @ ys"
    unfolding assms(2) using exec_done_cards by blast
  then have d: "done_cards s2 = done_cards s1 @ ys" by (simp add: Thread_init_done_cards)
  with assms(3) have m: "c \<in> set (done_cards s2)" by simp
  have "(c, DownloadCancelledException)
          \<notin> set (drop (length (failed s2)) (failed (fst (review_downloads s2))))"
    using m by (auto simp: review_downloads_failed)
  with m show ?thesis by (simp add: Thread_init_done_cards)
qed

theorem done_cards_shared_by_instances_witness:
  "2 \<in> set (done_cards (exec ex_env ex_config [Worker, Worker, Worker, Worker]
                          (Thread_init [2] ex_system)))
   \<and> failed (fst (review_downloads
        (exec ex_env ex_config [Worker, CancelButton, Worker]
           (Thread_init [2, 3]
              (exec ex_env ex_config [Worker, Worker, Worker, Worker]
                 (Thread_init [2] ex_system))))))
       = [(3, DownloadCancelledException)]"
proof -
  let ?s1 = "exec ex_env ex_config [Worker, Worker, Worker, Worker] (Thread_init [2] ex_system)"
  let ?s2 = "exec ex_env ex_config [Worker, CancelButton, Worker] (Thread_init [2, 3] ?s1)"
  have d1: "done_cards ?s1 = [2]" by (simp add: ex_defs)
  then have h: "2 \<in> set (done_cards ?s1)" by simp
  have c: "cards ?s2 = [2, 3]" "failed ?s2 = []" "is_cancelled ?s2"
    by (simp_all add: Thread_init_def worker_step_def handle_cancel_click_def
        Forvo_cleanup_def ex_config_def get_config_object_def)
  from done_cards_shared_by_instances[where e = ex_env and cfg = ex_config
      and cfg' = ex_config and ?evs1.0 = "[Worker, Worker, Worker, Worker]" and ?cs1.0 = "[2]"
      and ?s0.0 = ex_system and ?evs2.0 = "[Worker, CancelButton, Worker]" and ?cs2.0 = "[2, 3]"
      and c = 2, OF refl refl h]
  have m: "2 \<in> set (done_cards ?s2)" by simp
  have d2: "done_cards ?s2 = [2]"
    using d1 by (simp add: Thread_init_def worker_step_def handle_cancel_click_def
        Forvo_cleanup_def ex_config_def get_config_object_def)
  show ?thesis using h m c d2 by (simp add: review_downloads_failed)
qed

text \<open>
  Claim C10 as stated fails for records. The card with id 7 is selected and the dialog
  opened twice; each time \<^verbatim>\<open>getCard\<close> makes a new Card object for it, object 0 and
  then object 1. The first batch completes object 0, which stays in \<^verbatim>\<open>done_cards\<close>.
  The second batch is cancelled: object 1 is not in the list, since the list is searched
  for the object, and the review reports the card that the first batch completed as
  cancelled.
\<close>

theorem reloaded_card_is_classified_cancelled:
  "fst ex_click1 = [0] \<and> fst ex_click2 = [1]
   \<and> card_id (snd ex_click2 ! 0) = 7 \<and> card_id (snd ex_click2 ! 1) = 7
   \<and> pc ex_batch1 = Finished \<and> failed ex_batch1 = [] \<and> done_cards ex_batch1 = [0]
   \<and> pc ex_batch2 = Finished \<and> is_cancelled ex_batch2 \<and> done_cards ex_batch2 = [0]
   \<and> failed (fst (review_downloads ex_batch2)) = [(1, DownloadCancelledException)]"
proof -
  have c1: "ex_click1 = ([0], [\<lparr>card_id = 7, card_nid = 7\<rparr>])"
    by (simp add: ex_click1_def on_browser_ctx_menu_click_def getCard_def)
  have c2: "ex_click2 = ([1], [\<lparr>card_id = 7, card_nid = 7\<rparr>, \<lparr>card_id = 7, card_nid = 7\<rparr>])"
    by (simp add: ex_click2_def c1 on_browser_ctx_menu_click_def getCard_def)
  have b1: "pc ex_batch1 = Finished" "failed ex_batch1 = []" "done_cards ex_batch1 = [0]"
    by (simp_all add: ex_batch1_def c1 ex_system_plain_def ex_defs)
  have b2: "pc ex_batch2 = Finished" "is_cancelled ex_batch2" "done_cards ex_batch2 = [0]"
    "failed ex_batch2 = []" "cards ex_batch2 = [1]"
    using b1
    by (simp_all add: ex_batch2_def c2 Thread_init_def worker_step_def handle_cancel_click_def
        Forvo_cleanup_def ex_config_def get_config_object_def)
  show ?thesis using b1 b2 by (simp add: c1 c2 review_downloads_failed)
qed

subsection \<open>Cancelling and pausing\<close>

lemma exec_append: "exec e cfg (xs @ ys) s = exec e cfg ys (exec e cfg xs s)"
  by (induction xs arbitrary: s) simp_all

lemma waiting_worker_is_blocked:
  "pc s = Waiting i \<Longrightarrow> exec e cfg (replicate n Worker) s = s"
  by (induction n) (simp_all add: worker_step_def)

lemma cancel_keeps_waiting:
  "pc s = Waiting i \<Longrightarrow> pc (handle_cancel_click s) = Waiting i"
  by (simp add: handle_cancel_click_def)

lemma resume_wakes_waiting:
  "pc s = Waiting i \<Longrightarrow> \<not> status s \<Longrightarrow> pc (toggle_status s) = InBody i"
  by (simp add: toggle_status_def wakeAll_def Let_def)

lemma cancelled_top_stops:
  "pc s = AtTop i \<Longrightarrow> is_cancelled s \<Longrightarrow>
     worker_step e cfg s = (Forvo_cleanup s)\<lparr>pc := Finished\<rparr>"
  by (simp add: worker_step_def)

lemma review_without_failure_when_cancelled:
  "failed s = [] \<Longrightarrow> is_cancelled s \<Longrightarrow>
     snd (review_downloads s) =
       FailedDownloadsDialog
         (map (\<lambda>c. (c, DownloadCancelledException))
            (filter (\<lambda>c. c \<notin> set (done_cards s)) (cards s)))
         (skipped_cards s)"
  by (simp add: review_downloads_def Let_def)

text \<open>
  What one iteration does to the progress signal, the counter and the list of done cards:
  nothing when the card is skipped; one more value, one more count and the card appended
  when the card succeeds, and when it fails and the handler raises nothing.
\<close>

lemma worker_step_InBody:
  assumes "pc s = InBody i" and "i < length (cards s)"
    and "try_body e cfg (cards s ! i) s = (s1, r)"
  shows "worker_step e cfg s =
           (case r of
              Skipped \<Rightarrow> s1\<lparr>pc := AtTop (i + 1)\<rparr>
            | Completed \<Rightarrow> (finish_card (cards s ! i) s1)\<lparr>pc := AtTop (i + 1)\<rparr>
            | Raised x \<Rightarrow>
                (case snd (record_failure e (cards s ! i) x s1) of
                   Some y \<Rightarrow> (fst (record_failure e (cards s ! i) x s1))\<lparr>pc := Crashed y\<rparr>
                 | None \<Rightarrow> (finish_card (cards s ! i) (fst (record_failure e (cards s ! i) x s1)))
                             \<lparr>pc := AtTop (i + 1)\<rparr>))"
proof (cases r)
  case (Raised x)
  with assms show ?thesis by (simp add: worker_step_raised)
qed (use assms in \<open>simp_all add: worker_step_def Let_def\<close>)

lemma worker_step_progress:
  assumes "pc s = InBody i" and "i < length (cards s)"
    and "snd (try_body e cfg (cards s ! i) s) = r"
    and "r = Completed \<or>
         (\<exists>x. r = Raised x \<and>
            snd (record_failure e (cards s ! i) x (fst (try_body e cfg (cards s ! i) s))) = None)"
  shows "change_value (worker_step e cfg s) = change_value s @ [cnt s + 1]"
    and "cnt (worker_step e cfg s) = cnt s + 1"
    and "done_cards (worker_step e cfg s) = done_cards s @ [cards s ! i]"
proof -
  obtain s1 where t: "try_body e cfg (cards s ! i) s = (s1, r)"
    using assms(3) by (cases "try_body e cfg (cards s ! i) s") simp
  from try_body_frame[OF t]
  have f: "change_value s1 = change_value s" "cnt s1 = cnt s" "done_cards s1 = done_cards s"
    by (simp_all add: same_control_def)
  note w = worker_step_InBody[OF assms(1,2) t]
  show "change_value (worker_step e cfg s) = change_value s @ [cnt s + 1]"
    using assms(4) t f by (auto simp: w finish_card_def Let_def record_failure_frame)
  show "cnt (worker_step e cfg s) = cnt s + 1"
    using assms(4) t f by (auto simp: w finish_card_def Let_def record_failure_frame)
  show "done_cards (worker_step e cfg s) = done_cards s @ [cards s ! i]"
    using assms(4) t f by (auto simp: w finish_card_def Let_def record_failure_frame)
qed

lemma worker_step_no_progress:
  assumes "pc s = InBody i" and "i < length (cards s)"
    and "snd (try_body e cfg (cards s ! i) s) = Skipped"
  shows "change_value (worker_step e cfg s) = change_value s"
    and "cnt (worker_step e cfg s) = cnt s"
    and "done_cards (worker_step e cfg s) = done_cards s"
proof -
  obtain s1 where t: "try_body e cfg (cards s ! i) s = (s1, Skipped)"
    using assms(3) by (cases "try_body e cfg (cards s ! i) s") simp
  from try_body_frame[OF t]
  have f: "change_value s1 = change_value s" "cnt s1 = cnt s" "done_cards s1 = done_cards s"
    by (simp_all add: same_control_def)
  note w = worker_step_InBody[OF assms(1,2) t]
  show "change_value (worker_step e cfg s) = change_value s" using f by (simp add: w)
  show "cnt (worker_step e cfg s) = cnt s" using f by (simp add: w)
  show "done_cards (worker_step e cfg s) = done_cards s" using f by (simp add: w)
qed

text \<open>
  Claim C3. The worker is started, the pause button is pressed, the worker reaches the
  top of the first iteration and waits on the condition; then the cancel button is
  pressed. \<^verbatim>\<open>handle_cancel_click\<close> sets the two flags and does not call
  \<^verbatim>\<open>wakeAll\<close>: however many steps the worker is given, it is still waiting, and no
  cleanup has been done.
\<close>

theorem cancel_does_not_wake_waiting_worker:
  "pc (exec ex_env ex_config ([Worker, PauseButton, Worker, CancelButton] @ replicate n Worker)
         (Thread_init [2] ex_system)) = Waiting 0
   \<and> is_cancelled (exec ex_env ex_config
         ([Worker, PauseButton, Worker, CancelButton] @ replicate n Worker)
         (Thread_init [2] ex_system))
   \<and> cleanups (exec ex_env ex_config
         ([Worker, PauseButton, Worker, CancelButton] @ replicate n Worker)
         (Thread_init [2] ex_system)) = 0"
proof -
  let ?s = "exec ex_env ex_config [Worker, PauseButton, Worker, CancelButton]
              (Thread_init [2] ex_system)"
  have p: "pc ?s = Waiting 0" by (simp add: ex_defs)
  have c: "is_cancelled ?s" "cleanups ?s = 0" by (simp_all add: ex_defs)
  have "exec ex_env ex_config ([Worker, PauseButton, Worker, CancelButton] @ replicate n Worker)
          (Thread_init [2] ex_system) = ?s"
    unfolding exec_append using p by (rule waiting_worker_is_blocked)
  then show ?thesis using p c by simp
qed

text \<open>
  Claim C2. With the option to skip existing audio set, the worker runs over the one card
  that has audio already: the card is counted as skipped, the run ends, and no progress
  value was emitted; the counter is still 0.
\<close>

theorem skipped_card_emits_no_progress:
  "pc (exec ex_env ex_config [Worker, Worker, Worker, Worker] (Thread_init [1] ex_system))
     = Finished
   \<and> skipped_cards (exec ex_env ex_config [Worker, Worker, Worker, Worker]
        (Thread_init [1] ex_system)) = 1
   \<and> change_value (exec ex_env ex_config [Worker, Worker, Worker, Worker]
        (Thread_init [1] ex_system)) = []
   \<and> cnt (exec ex_env ex_config [Worker, Worker, Worker, Worker]
        (Thread_init [1] ex_system)) = 0"
  by (simp add: ex_defs)

text \<open>
  Claim C1. Two cards; the cancel button is pressed while the first card, which fails, is
  in work. The run ends at the top of the second iteration. \<^verbatim>\<open>failed\<close> is not empty,
  so \<^verbatim>\<open>review_downloads\<close> opens the dialog with it as it is: the second card is not in
  \<^verbatim>\<open>failed\<close>, was not skipped and was not done.
\<close>

theorem cancelled_run_with_failure_omits_card:
  "pc (exec ex_env ex_config [Worker, Worker, CancelButton, Worker, Worker]
         (Thread_init [0, 2] ex_system)) = Finished
   \<and> is_cancelled (exec ex_env ex_config [Worker, Worker, CancelButton, Worker, Worker]
         (Thread_init [0, 2] ex_system))
   \<and> snd (review_downloads (exec ex_env ex_config [Worker, Worker, CancelButton, Worker, Worker]
         (Thread_init [0, 2] ex_system)))
       = FailedDownloadsDialog [(0, NoResultsException)] 0
   \<and> done_cards (exec ex_env ex_config [Worker, Worker, CancelButton, Worker, Worker]
         (Thread_init [0, 2] ex_system)) = [0]"
  by (simp add: ex_defs)

lemma cancelled_run_counts_skipped_card_twice:
  "snd (review_downloads
          (exec ex_env ex_config [Worker, Worker, Worker, Worker, CancelButton, Worker, Worker]
             (Thread_init [1, 2] ex_system)))
     = FailedDownloadsDialog [(1, DownloadCancelledException)] 1"
  by (simp add: ex_defs)

text \<open>
  Claim C9. Four cards; the cancel button is pressed while the card at index 0, which
  fails, is in work. The worker stops at the top of the next iteration, so no further
  card is worked on; but \<^verbatim>\<open>failed\<close> is not empty, and the review reports that one
  failure only: the cards at the indices 2 and 3 are not reported as cancelled.
\<close>

theorem cancelled_cards_not_classified_after_failure:
  "pc (exec ex_env ex_config [Worker, Worker, CancelButton, Worker, Worker]
         (Thread_init [0, 2, 3, 4] ex_system)) = Finished
   \<and> done_cards (exec ex_env ex_config [Worker, Worker, CancelButton, Worker, Worker]
         (Thread_init [0, 2, 3, 4] ex_system)) = [0]
   \<and> failed (fst (review_downloads
         (exec ex_env ex_config [Worker, Worker, CancelButton, Worker, Worker]
            (Thread_init [0, 2, 3, 4] ex_system)))) = [(0, NoResultsException)]
   \<and> (3, DownloadCancelledException) \<notin> set (failed (fst (review_downloads
         (exec ex_env ex_config [Worker, Worker, CancelButton, Worker, Worker]
            (Thread_init [0, 2, 3, 4] ex_system)))))
   \<and> (4, DownloadCancelledException) \<notin> set (failed (fst (review_downloads
         (exec ex_env ex_config [Worker, Worker, CancelButton, Worker, Worker]
            (Thread_init [0, 2, 3, 4] ex_system)))))"
  by (simp add: ex_defs)

text \<open>
  Once the flag is set, the worker finishes at most the card it is working on: from the
  body of card \<open>k\<close> it gets to the top of the next iteration and from there to the end,
  unless the handler of the loop raises and \<^verbatim>\<open>run\<close> is left at card \<open>k\<close>.
\<close>

lemma worker_step_InBody_pc:
  assumes "pc s = InBody k" and "k < length (cards s)"
  shows "pc (worker_step e cfg s) = AtTop (Suc k) \<or> (\<exists>y. pc (worker_step e cfg s) = Crashed y)"
proof -
  obtain s1 r where t: "try_body e cfg (cards s ! k) s = (s1, r)"
    by (cases "try_body e cfg (cards s ! k) s")
  show ?thesis
    by (cases r; cases "snd (record_failure e (cards s ! k) (case r of Raised x \<Rightarrow> x) s1)")
       (simp_all add: worker_step_InBody[OF assms t])
qed

lemma worker_step_is_cancelled:
  "is_cancelled (worker_step e cfg s) = is_cancelled s"
proof (cases "pc s")
  case (InBody i)
  show ?thesis
  proof (cases "i < length (cards s)")
    case True
    obtain s1 r where t: "try_body e cfg (cards s ! i) s = (s1, r)"
      by (cases "try_body e cfg (cards s ! i) s")
    from try_body_frame[OF t] have d: "is_cancelled s1 = is_cancelled s"
      by (simp add: same_control_def)
    show ?thesis using d
      by (cases r; cases "snd (record_failure e (cards s ! i) (case r of Raised x \<Rightarrow> x) s1)")
         (simp_all add: worker_step_InBody[OF InBody True t] finish_card_def Let_def
            record_failure_frame)
  next
    case False
    with InBody show ?thesis by (simp add: worker_step_def)
  qed
qed (auto simp: worker_step_def Forvo_cleanup_def split: option.splits)

lemma step_after_cancel:
  assumes "is_cancelled s"
    and "pc s \<in> {InBody k, AtTop (Suc k), Finished} \<or> (\<exists>y. pc s = Crashed y)"
  shows "is_cancelled (step e cfg ev s)
     \<and> (pc (step e cfg ev s) \<in> {InBody k, AtTop (Suc k), Finished}
          \<or> (\<exists>y. pc (step e cfg ev s) = Crashed y))"
proof (cases ev)
  case Worker
  have "pc (worker_step e cfg s) \<in> {InBody k, AtTop (Suc k), Finished}
          \<or> (\<exists>y. pc (worker_step e cfg s) = Crashed y)"
  proof (cases "pc s")
    case (InBody i)
    with assms(2) have ik: "i = k" by simp
    show ?thesis
    proof (cases "k < length (cards s)")
      case True
      with InBody ik worker_step_InBody_pc[of s k e cfg] show ?thesis by auto
    next
      case False
      with InBody ik show ?thesis by (simp add: worker_step_def)
    qed
  next
    case (AtTop i)
    then show ?thesis using assms(1) by (simp add: worker_step_def)
  qed (use assms(2) in \<open>auto simp: worker_step_def\<close>)
  with Worker assms(1) show ?thesis by (simp add: worker_step_is_cancelled)
next
  case PauseButton
  then show ?thesis using assms
    by (auto simp: toggle_status_def wakeAll_def Let_def)
next
  case CancelButton
  then show ?thesis using assms by (simp add: handle_cancel_click_def)
qed

lemma cancelled_worker_stops_after_current_card:
  "is_cancelled s \<Longrightarrow>
   pc s \<in> {InBody k, AtTop (Suc k), Finished} \<or> (\<exists>y. pc s = Crashed y) \<Longrightarrow>
     pc (exec e cfg evs s) \<in> {InBody k, AtTop (Suc k), Finished}
       \<or> (\<exists>y. pc (exec e cfg evs s) = Crashed y)"
proof (induction evs arbitrary: s)
  case Nil
  then show ?case by simp
next
  case (Cons ev evs)
  from step_after_cancel[OF Cons.prems, of e cfg ev]
  have "is_cancelled (step e cfg ev s)"
    and "pc (step e cfg ev s) \<in> {InBody k, AtTop (Suc k), Finished}
           \<or> (\<exists>y. pc (step e cfg ev s) = Crashed y)" by simp_all
  then have "pc (exec e cfg evs (step e cfg ev s)) \<in> {InBody k, AtTop (Suc k), Finished}
               \<or> (\<exists>y. pc (exec e cfg evs (step e cfg ev s)) = Crashed y)"
    by (rule Cons.IH)
  then show ?case by simp
qed

subsection \<open>The resolution of missing fields and languages: declining\<close>

lemma select_lang_outcome:
  "missing \<noteq> [] \<Longrightarrow> \<not> started d \<Longrightarrow> \<forall>k<length (asked d). answers k \<noteq> None \<Longrightarrow>
     \<exists>r. select_lang answers missing d = Inr r \<and>
       ((started r \<and> (\<forall>k<length (asked r). answers k \<noteq> None) \<and> shown r = shown d)
        \<or> (\<not> started r \<and> shown r = shown d @ [no_language_msg]))"
proof (induction answers missing d rule: select_lang.induct)
  case (1 answers missing d)
  show ?case
  proof (cases "answers (length (asked d))")
    case None
    then show ?thesis using "1.prems"
      by (subst select_lang.simps) (simp add: Let_def)
  next
    case (Some lang)
    let ?d1 = "d\<lparr>asked := asked d @ [LanguageSelector (last missing)],
                 stores := stores d @ [conf d]\<rparr>"
    let ?d2 = "?d1\<lparr>conf := set_deck_specific_config_object (conf ?d1) ''language'' lang
                                (last missing)\<rparr>"
    have pre: "\<not> started ?d2" "\<forall>k<length (asked ?d2). answers k \<noteq> None"
      using "1.prems" Some by (auto simp: less_Suc_eq)
    show ?thesis
    proof (cases "length missing > 1")
      case True
      then have ne: "butlast missing \<noteq> []" by (cases missing) auto
      have eq: "select_lang answers missing d = select_lang answers (butlast missing) ?d2"
        using "1.prems"(1) Some True by (subst select_lang.simps) (simp add: Let_def)
      from "1.IH"[OF "1.prems"(1) refl refl Some refl True ne pre]
      show ?thesis unfolding eq by simp
    next
      case False
      then have "select_lang answers missing d = Inr (start_downloads ?d2)"
        using "1.prems"(1) Some by (subst select_lang.simps) (simp add: Let_def)
      then show ?thesis using pre by (simp add: start_downloads_def)
    qed
  qed
qed

lemma ensure_languages_outcome:
  assumes "\<not> started d" and "\<forall>k<length (asked d). answers k \<noteq> None"
  shows "\<exists>r. ensure_languages list_set e answers d = Inr r \<and>
       ((started r \<and> (\<forall>k<length (asked r). answers k \<noteq> None) \<and> shown r = shown d)
        \<or> (\<not> started r \<and> shown r = shown d @ [no_language_msg]))"
proof (cases "missing_decks list_set e d = []")
  case True
  then show ?thesis using assms by (simp add: ensure_languages_def start_downloads_def)
next
  case False
  then have "ensure_languages list_set e answers d
               = select_lang answers (missing_decks list_set e d) d"
    by (simp add: ensure_languages_def)
  with select_lang_outcome[OF False assms] show ?thesis by simp
qed

lemma select_field_outcome:
  "missing_ids \<noteq> [] \<Longrightarrow> \<not> started d \<Longrightarrow> \<forall>k<length (asked d). answers k \<noteq> None \<Longrightarrow>
     \<exists>r. select_field list_set e answers missing_ids field_type d = Inr r \<and>
       ((started r \<and> (\<forall>k<length (asked r). answers k \<noteq> None) \<and> shown r = shown d)
        \<or> (\<not> started r \<and>
             (shown r = shown d @ [no_field_msg] \<or> shown r = shown d @ [no_language_msg])))"
proof (induction list_set e answers missing_ids field_type d rule: select_field.induct)
  case (1 list_set e answers missing_ids field_type d)
  show ?case
  proof (cases "answers (length (asked d))")
    case None
    then show ?thesis using "1.prems"
      by (subst select_field.simps) (simp add: Let_def)
  next
    case (Some f)
    let ?d1 = "d\<lparr>asked := asked d @ [FieldSelector (last missing_ids) field_type],
                 stores := stores d @ [conf d]\<rparr>"
    let ?d2 = "?d1\<lparr>conf := set_note_type_specific_config_object (conf ?d1) field_type f
                                (last missing_ids)\<rparr>"
    let ?new = "missing_note_types list_set e ''audioField'' ?d2"
    have pre: "\<not> started ?d2" "\<forall>k<length (asked ?d2). answers k \<noteq> None"
      using "1.prems" Some by (auto simp: less_Suc_eq)
    have sh: "shown ?d2 = shown d" by simp
    show ?thesis
    proof (cases "length missing_ids > 1")
      case True
      then have ne: "butlast missing_ids \<noteq> []" by (cases missing_ids) auto
      have eq: "select_field list_set e answers missing_ids field_type d
                  = select_field list_set e answers (butlast missing_ids) field_type ?d2"
        using "1.prems"(1) Some True by (subst select_field.simps) (simp add: Let_def)
      from "1.IH"(1)[OF "1.prems"(1) refl refl Some refl True ne pre]
      show ?thesis unfolding eq by simp
    next
      case False
      show ?thesis
      proof (cases "field_type = ''audioField'' \<or> ?new = []")
        case True
        then have eq: "select_field list_set e answers missing_ids field_type d
                    = ensure_languages list_set e answers ?d2"
          using "1.prems"(1) Some False by (subst select_field.simps) (auto simp: Let_def)
        from ensure_languages_outcome[OF pre, of list_set e]
        show ?thesis unfolding eq by auto
      next
        case F2: False
        then have ft: "field_type \<noteq> ''audioField''" and ne: "?new \<noteq> []" by simp_all
        have pos: "0 < length ?new" using ne by simp
        have eq: "select_field list_set e answers missing_ids field_type d
                    = select_field list_set e answers ?new ''audioField'' ?d2"
          using "1.prems"(1) Some False ft ne by (subst select_field.simps) (simp add: Let_def)
        from "1.IH"(2)[OF "1.prems"(1) refl refl Some refl False ft refl pos ne pre]
        show ?thesis unfolding eq by simp
      qed
    qed
  qed
qed

lemma ensure_fields_outcome:
  assumes "\<not> started d" and "\<forall>k<length (asked d). answers k \<noteq> None"
  shows "\<exists>r. ensure_fields list_set e answers d = Inr r \<and>
       ((started r \<and> (\<forall>k<length (asked r). answers k \<noteq> None) \<and> shown r = shown d)
        \<or> (\<not> started r \<and>
             (shown r = shown d @ [no_field_msg] \<or> shown r = shown d @ [no_language_msg])))"
proof (cases "missing_note_types list_set e ''searchField'' d = []")
  case False
  then have "ensure_fields list_set e answers d =
      select_field list_set e answers (missing_note_types list_set e ''searchField'' d)
        ''searchField'' d"
    by (simp add: ensure_fields_def)
  with select_field_outcome[OF False assms] show ?thesis by simp
next
  case True
  show ?thesis
  proof (cases "missing_note_types list_set e ''audioField'' d = []")
    case False
    then have "ensure_fields list_set e answers d =
        select_field list_set e answers (missing_note_types list_set e ''audioField'' d)
          ''audioField'' d"
      using True by (simp add: ensure_fields_def)
    with select_field_outcome[OF False assms] show ?thesis by simp
  next
    case T2: True
    then show ?thesis using True assms by (simp add: ensure_fields_def start_downloads_def)
  qed
qed

lemmas flow_defs =
  ensure_fields_def ensure_languages_def missing_note_types_def missing_decks_def
  select_field.simps select_lang.simps start_downloads_def ex_dialog_def ex_env3_def ex_env_def
  set_note_type_specific_config_object_def set_deck_specific_config_object_def
  get_note_type_specific_config_object_def get_deck_specific_config_object_def Let_def

text \<open>
  Claim C8. The dialog is fresh: nothing asked, nothing shown, the worker not started.
  When the user leaves any dialog that is shown (for a search field, an audio field or a
  language) without a choice, the result of the whole resolution is: one message of
  cancellation shown, and \<^verbatim>\<open>self.th.start()\<close> not called, so that the worker handles no
  card.
\<close>

theorem declined_resolution_never_starts:
  assumes "ensure_fields list_set e answers d = Inr r"
    and "\<not> started d" and "asked d = []" and "shown d = []"
    and "k < length (asked r)" and "answers k = None"
  shows "\<not> started r \<and> (shown r = [no_field_msg] \<or> shown r = [no_language_msg])"
proof -
  have "\<forall>k<length (asked d). answers k \<noteq> None" using assms(3) by simp
  from ensure_fields_outcome[OF assms(2) this, of list_set e] assms(1)
  have "(started r \<and> (\<forall>k<length (asked r). answers k \<noteq> None) \<and> shown r = shown d)
        \<or> (\<not> started r \<and>
             (shown r = shown d @ [no_field_msg] \<or> shown r = shown d @ [no_language_msg]))"
    by simp
  then show ?thesis using assms(4,5,6) by auto
qed

theorem declined_resolution_never_starts_witness:
  "(\<exists>r. ensure_fields remdups ex_env3 (\<lambda>k. if k = 4 then None else Some ''Front'') ex_dialog
          = Inr r
        \<and> length (asked r) = 5 \<and> \<not> started r \<and> shown r = [no_field_msg])"
proof -
  let ?a = "\<lambda>k::nat. if k = 4 then None else Some ''Front''"
  obtain r where r: "ensure_fields remdups ex_env3 ?a ex_dialog = Inr r"
    using ensure_fields_outcome[of ex_dialog ?a remdups ex_env3]
    by (auto simp: ex_dialog_def)
  have a: "asked r = [FieldSelector 11 ''searchField'', FieldSelector 10 ''searchField'',
      FieldSelector 12 ''searchField'', FieldSelector 11 ''audioField'',
      FieldSelector 10 ''audioField'']"
    using r by (simp add: flow_defs) auto
  have h: "(4::nat) < length (asked r)" using a by simp
  have s: "shown r = [no_field_msg]"
    using r by (simp add: flow_defs) auto
  from declined_resolution_never_starts[OF r _ _ _ h]
  have "\<not> started r" by (simp add: ex_dialog_def)
  then
  show ?thesis using r a s by simp
qed

subsection \<open>The resolution of missing fields and languages: one dialog per note type\<close>

lemma field_requests_append [simp]:
  "field_requests ft (xs @ ys) = field_requests ft xs @ field_requests ft ys"
  by (induction ft xs rule: field_requests.induct) simp_all

lemma missing_note_types_cong:
  assumes "unique_cards d' = unique_cards d"
    and "\<And>n. note_type_opts (conf d') (ft, n) = note_type_opts (conf d) (ft, n)"
  shows "missing_note_types list_set e ft d' = missing_note_types list_set e ft d"
  using assms by (simp add: missing_note_types_def get_note_type_specific_config_object_def)

lemma select_lang_requests:
  "missing \<noteq> [] \<Longrightarrow>
     \<exists>r. select_lang answers missing d = Inr r
        \<and> field_requests ft (asked r) = field_requests ft (asked d)"
proof (induction answers missing d rule: select_lang.induct)
  case (1 answers missing d)
  show ?case
  proof (cases "answers (length (asked d))")
    case None
    then show ?thesis using "1.prems"
      by (subst select_lang.simps) (simp add: Let_def)
  next
    case (Some lang)
    let ?d1 = "d\<lparr>asked := asked d @ [LanguageSelector (last missing)],
                 stores := stores d @ [conf d]\<rparr>"
    let ?d2 = "?d1\<lparr>conf := set_deck_specific_config_object (conf ?d1) ''language'' lang
                                (last missing)\<rparr>"
    show ?thesis
    proof (cases "length missing > 1")
      case True
      then have ne: "butlast missing \<noteq> []" by (cases missing) auto
      have eq: "select_lang answers missing d = select_lang answers (butlast missing) ?d2"
        using "1.prems"(1) Some True by (subst select_lang.simps) (simp add: Let_def)
      from "1.IH"[OF "1.prems"(1) refl refl Some refl True ne]
      show ?thesis unfolding eq by simp
    next
      case False
      then have "select_lang answers missing d = Inr (start_downloads ?d2)"
        using "1.prems"(1) Some by (subst select_lang.simps) (simp add: Let_def)
      then show ?thesis by (simp add: start_downloads_def)
    qed
  qed
qed

lemma ensure_languages_requests:
  "\<exists>r. ensure_languages list_set e answers d = Inr r
      \<and> field_requests ft (asked r) = field_requests ft (asked d)"
proof (cases "missing_decks list_set e d = []")
  case True
  then show ?thesis by (simp add: ensure_languages_def start_downloads_def)
next
  case False
  then have "ensure_languages list_set e answers d
               = select_lang answers (missing_decks list_set e d) d"
    by (simp add: ensure_languages_def)
  with select_lang_requests[OF False] show ?thesis by simp
qed

lemma rev_last_butlast: "xs \<noteq> [] \<Longrightarrow> rev xs = last xs # rev (butlast xs)"
  by (induction xs rule: rev_induct) simp_all

lemma single_last: "xs \<noteq> [] \<Longrightarrow> \<not> 1 < length xs \<Longrightarrow> xs = [last xs]"
  by (cases xs) auto

lemma select_field_requests:
  "missing_ids \<noteq> [] \<Longrightarrow> \<forall>k. answers k \<noteq> None \<Longrightarrow>
     \<exists>r. select_field list_set e answers missing_ids field_type d = Inr r
        \<and> field_requests field_type (asked r)
            = field_requests field_type (asked d) @ rev missing_ids
        \<and> (field_type \<noteq> ''audioField'' \<longrightarrow>
             field_requests ''audioField'' (asked r)
               = field_requests ''audioField'' (asked d)
                   @ rev (missing_note_types list_set e ''audioField'' d))
        \<and> (field_type = ''audioField'' \<longrightarrow>
             (\<forall>ft. ft \<noteq> ''audioField'' \<longrightarrow>
                field_requests ft (asked r) = field_requests ft (asked d)))"
proof (induction list_set e answers missing_ids field_type d rule: select_field.induct)
  case (1 list_set e answers missing_ids field_type d)
  obtain f where Some: "answers (length (asked d)) = Some f"
    using "1.prems"(2) by (cases "answers (length (asked d))") (auto dest: spec[of _ "length (asked d)"])
  let ?x = "last missing_ids"
  let ?d1 = "d\<lparr>asked := asked d @ [FieldSelector ?x field_type],
                 stores := stores d @ [conf d]\<rparr>"
  let ?d2 = "?d1\<lparr>conf := set_note_type_specific_config_object (conf ?d1) field_type f ?x\<rparr>"
  let ?new = "missing_note_types list_set e ''audioField'' ?d2"
  have own: "field_requests field_type (asked ?d2) = field_requests field_type (asked d) @ [?x]"
    by simp
  have other: "\<And>ft. ft \<noteq> field_type \<Longrightarrow>
      field_requests ft (asked ?d2) = field_requests ft (asked d)"
    by simp
  have audio: "field_type \<noteq> ''audioField'' \<Longrightarrow>
      ?new = missing_note_types list_set e ''audioField'' d"
    by (rule missing_note_types_cong) (simp_all add: set_note_type_specific_config_object_def)
  show ?case
  proof (cases "length missing_ids > 1")
    case True
    then have ne: "butlast missing_ids \<noteq> []" by (cases missing_ids) auto
    have eq: "select_field list_set e answers missing_ids field_type d
                = select_field list_set e answers (butlast missing_ids) field_type ?d2"
      using "1.prems"(1) Some True by (subst select_field.simps) (simp add: Let_def)
    from "1.IH"(1)[OF "1.prems"(1) refl refl Some refl True ne "1.prems"(2)]
    obtain r where r: "select_field list_set e answers (butlast missing_ids) field_type ?d2 = Inr r"
      and a: "field_requests field_type (asked r)
                = field_requests field_type (asked ?d2) @ rev (butlast missing_ids)"
      and b: "field_type \<noteq> ''audioField'' \<longrightarrow>
                field_requests ''audioField'' (asked r)
                  = field_requests ''audioField'' (asked ?d2) @ rev ?new"
      and c: "field_type = ''audioField'' \<longrightarrow>
               (\<forall>ft. ft \<noteq> ''audioField'' \<longrightarrow>
                  field_requests ft (asked r) = field_requests ft (asked ?d2))"
      by blast
    have a': "field_requests field_type (asked r)
                = field_requests field_type (asked d) @ rev missing_ids"
      by (simp only: a own rev_last_butlast[OF "1.prems"(1)] append_assoc append_Cons append_Nil)
    have b': "field_type \<noteq> ''audioField'' \<longrightarrow>
                field_requests ''audioField'' (asked r)
                  = field_requests ''audioField'' (asked d)
                      @ rev (missing_note_types list_set e ''audioField'' d)"
      using b audio other[of "''audioField''"] by auto
    have c': "field_type = ''audioField'' \<longrightarrow>
               (\<forall>ft. ft \<noteq> ''audioField'' \<longrightarrow>
                  field_requests ft (asked r) = field_requests ft (asked d))"
      using c other by auto
    show ?thesis unfolding eq using r a' b' c' by blast
  next
    case False
    have one: "rev missing_ids = [?x]"
      using single_last[OF "1.prems"(1) False] by (metis rev_singleton_conv)
    show ?thesis
    proof (cases "field_type = ''audioField'' \<or> ?new = []")
      case True
      then have eq: "select_field list_set e answers missing_ids field_type d
                  = ensure_languages list_set e answers ?d2"
        using "1.prems"(1) Some False by (subst select_field.simps) (auto simp: Let_def)
      obtain r where r: "ensure_languages list_set e answers ?d2 = Inr r"
        using ensure_languages_requests[of list_set e answers ?d2] by blast
      have k: "\<And>ft. field_requests ft (asked r) = field_requests ft (asked ?d2)"
        using ensure_languages_requests[of list_set e answers ?d2] r by auto
      have a': "field_requests field_type (asked r)
                  = field_requests field_type (asked d) @ rev missing_ids"
        by (simp only: k[of field_type] own one)
      have b': "field_type \<noteq> ''audioField'' \<longrightarrow>
                  field_requests ''audioField'' (asked r)
                    = field_requests ''audioField'' (asked d)
                        @ rev (missing_note_types list_set e ''audioField'' d)"
        using k[of "''audioField''"] True audio other[of "''audioField''"] by auto
      have c': "field_type = ''audioField'' \<longrightarrow>
                 (\<forall>ft. ft \<noteq> ''audioField'' \<longrightarrow>
                    field_requests ft (asked r) = field_requests ft (asked d))"
        using k other by auto
      show ?thesis unfolding eq using r a' b' c' by blast
    next
      case F2: False
      then have ft: "field_type \<noteq> ''audioField''" and ne: "?new \<noteq> []" by simp_all
      have pos: "0 < length ?new" using ne by simp
      have eq: "select_field list_set e answers missing_ids field_type d
                  = select_field list_set e answers ?new ''audioField'' ?d2"
        using "1.prems"(1) Some False ft ne by (subst select_field.simps) (simp add: Let_def)
      from "1.IH"(2)[OF "1.prems"(1) refl refl Some refl False ft refl pos ne "1.prems"(2)]
      obtain r where r: "select_field list_set e answers ?new ''audioField'' ?d2 = Inr r"
        and a: "field_requests ''audioField'' (asked r)
                  = field_requests ''audioField'' (asked ?d2) @ rev ?new"
        and c: "\<forall>ft. ft \<noteq> ''audioField'' \<longrightarrow>
                    field_requests ft (asked r) = field_requests ft (asked ?d2)"
        by blast
      have "field_requests field_type (asked r) = field_requests field_type (asked ?d2)"
        using c ft by blast
      then have a': "field_requests field_type (asked r)
                  = field_requests field_type (asked d) @ rev missing_ids"
        by (simp only: own one)
      have b': "field_requests ''audioField'' (asked r)
                    = field_requests ''audioField'' (asked d)
                        @ rev (missing_note_types list_set e ''audioField'' d)"
        using a audio[OF ft] other[of "''audioField''"] ft by auto
      show ?thesis unfolding eq using r a' b' ft by blast
    qed
  qed
qed

lemma ensure_fields_requests:
  assumes "\<forall>k. answers k \<noteq> None"
  shows "\<exists>r. ensure_fields list_set e answers d = Inr r
     \<and> field_requests ''searchField'' (asked r)
         = field_requests ''searchField'' (asked d)
             @ rev (missing_note_types list_set e ''searchField'' d)
     \<and> field_requests ''audioField'' (asked r)
         = field_requests ''audioField'' (asked d)
             @ rev (missing_note_types list_set e ''audioField'' d)"
proof (cases "missing_note_types list_set e ''searchField'' d = []")
  case False
  then have eq: "ensure_fields list_set e answers d =
      select_field list_set e answers (missing_note_types list_set e ''searchField'' d)
        ''searchField'' d"
    by (simp add: ensure_fields_def)
  from select_field_requests[OF False assms, of list_set e "''searchField''" d]
  show ?thesis unfolding eq by auto
next
  case True
  show ?thesis
  proof (cases "missing_note_types list_set e ''audioField'' d = []")
    case False
    then have eq: "ensure_fields list_set e answers d =
        select_field list_set e answers (missing_note_types list_set e ''audioField'' d)
          ''audioField'' d"
      using True by (simp add: ensure_fields_def)
    from select_field_requests[OF False assms, of list_set e "''audioField''" d]
    show ?thesis unfolding eq using True by auto
  next
    case T2: True
    then show ?thesis using True by (simp add: ensure_fields_def start_downloads_def)
  qed
qed

text \<open>
  The answers and the configuration. With every dialog answered, each answer is written
  into the configuration under its field and note type before the next dialog is shown,
  no entry is ever removed, and at the end every note type that was asked for has its
  entry.
\<close>

lemma persisted_extend:
  assumes p: "persisted answers d"
    and a: "asked d' = asked d @ [q]" and s: "stores d' = stores d @ [conf d]"
    and last: "(case q of
                  FieldSelector n g \<Rightarrow>
                    get_note_type_specific_config_object (conf d') g n = answers (length (asked d))
                | LanguageSelector deck \<Rightarrow>
                    get_deck_specific_config_object (conf d') ''language'' deck
                      = answers (length (asked d)))"
  shows "persisted answers d'"
proof -
  have len: "length (stores d) = length (asked d)" using p by (simp add: persisted_def)
  have "\<forall>k<length (asked d').
         (case asked d' ! k of
            FieldSelector n g \<Rightarrow>
              get_note_type_specific_config_object ((stores d' @ [conf d']) ! Suc k) g n
                = answers k
          | LanguageSelector deck \<Rightarrow>
              get_deck_specific_config_object ((stores d' @ [conf d']) ! Suc k) ''language'' deck
                = answers k)"
  proof (intro allI impI)
    fix k assume "k < length (asked d')"
    then have "k < length (asked d) \<or> k = length (asked d)" using a by auto
    then show "(case asked d' ! k of
            FieldSelector n g \<Rightarrow>
              get_note_type_specific_config_object ((stores d' @ [conf d']) ! Suc k) g n
                = answers k
          | LanguageSelector deck \<Rightarrow>
              get_deck_specific_config_object ((stores d' @ [conf d']) ! Suc k) ''language'' deck
                = answers k)"
    proof
      assume k: "k < length (asked d)"
      have 1: "asked d' ! k = asked d ! k" using k a by (simp add: nth_append)
      have 2: "(stores d' @ [conf d']) ! Suc k = (stores d @ [conf d]) ! Suc k"
        using k len s by (simp add: nth_append)
      from p k have "(case asked d ! k of
            FieldSelector n g \<Rightarrow>
              get_note_type_specific_config_object ((stores d @ [conf d]) ! Suc k) g n
                = answers k
          | LanguageSelector deck \<Rightarrow>
              get_deck_specific_config_object ((stores d @ [conf d]) ! Suc k) ''language'' deck
                = answers k)"
        by (simp add: persisted_def)
      then show ?thesis by (simp only: 1 2)
    next
      assume k: "k = length (asked d)"
      have 1: "asked d' ! length (asked d) = q" using a by simp
      have 2: "(stores d' @ [conf d']) ! Suc (length (asked d)) = conf d'"
        using len s by (simp add: nth_append)
      show ?thesis unfolding k 1 2 by (rule last)
    qed
  qed
  moreover have "length (stores d') = length (asked d')" using len a s by simp
  ultimately show ?thesis by (simp add: persisted_def)
qed

lemma persisted_step_field:
  assumes "persisted answers d" and "answers (length (asked d)) = Some f"
  shows "persisted answers
           (d\<lparr>asked := asked d @ [FieldSelector n g], stores := stores d @ [conf d],
              conf := set_note_type_specific_config_object (conf d) g f n\<rparr>)"
  by (rule persisted_extend[OF assms(1), where q = "FieldSelector n g"])
     (simp_all add: assms(2) set_note_type_specific_config_object_def
        get_note_type_specific_config_object_def)

lemma persisted_step_lang:
  assumes "persisted answers d" and "answers (length (asked d)) = Some l"
  shows "persisted answers
           (d\<lparr>asked := asked d @ [LanguageSelector deck], stores := stores d @ [conf d],
              conf := set_deck_specific_config_object (conf d) ''language'' l deck\<rparr>)"
  by (rule persisted_extend[OF assms(1), where q = "LanguageSelector deck"])
     (simp_all add: assms(2) set_deck_specific_config_object_def
        get_deck_specific_config_object_def)

lemma persisted_started [simp]: "persisted answers (start_downloads d) = persisted answers d"
  by (simp add: persisted_def start_downloads_def cong: request.case_cong)

lemma select_lang_store:
  "missing \<noteq> [] \<Longrightarrow> \<forall>k. answers k \<noteq> None \<Longrightarrow> persisted answers d \<Longrightarrow>
   select_lang answers missing d = Inr r \<Longrightarrow>
     persisted answers r \<and> unique_cards r = unique_cards d
       \<and> note_type_opts (conf r) = note_type_opts (conf d)"
proof (induction answers missing d rule: select_lang.induct)
  case (1 answers missing d)
  obtain l where Some: "answers (length (asked d)) = Some l"
    using "1.prems"(2) by (cases "answers (length (asked d))") (auto dest: spec[of _ "length (asked d)"])
  let ?d1 = "d\<lparr>asked := asked d @ [LanguageSelector (last missing)],
                 stores := stores d @ [conf d]\<rparr>"
  let ?d2 = "?d1\<lparr>conf := set_deck_specific_config_object (conf ?d1) ''language'' l
                              (last missing)\<rparr>"
  have p2: "persisted answers ?d2"
    using persisted_step_lang[OF "1.prems"(3) Some, where deck = "last missing"] by simp
  have k2: "unique_cards ?d2 = unique_cards d"
    "note_type_opts (conf ?d2) = note_type_opts (conf d)"
    by (simp_all add: set_deck_specific_config_object_def)
  show ?case
  proof (cases "length missing > 1")
    case True
    then have ne: "butlast missing \<noteq> []" by (cases missing) auto
    have eq: "select_lang answers missing d = select_lang answers (butlast missing) ?d2"
      using "1.prems"(1) Some True by (subst select_lang.simps) (simp add: Let_def)
    then have res: "select_lang answers (butlast missing) ?d2 = Inr r"
      using "1.prems"(4) by simp
    from "1.IH"[OF "1.prems"(1) refl refl Some refl True ne "1.prems"(2) p2 res] k2
    show ?thesis by simp
  next
    case False
    then have "select_lang answers missing d = Inr (start_downloads ?d2)"
      using "1.prems"(1) Some by (subst select_lang.simps) (simp add: Let_def)
    then have r: "r = start_downloads ?d2" using "1.prems"(4) by simp
    have "persisted answers r" unfolding r using p2 by (simp only: persisted_started)
    moreover have "unique_cards r = unique_cards d"
      "note_type_opts (conf r) = note_type_opts (conf d)"
      unfolding r using k2 by (simp_all add: start_downloads_def)
    ultimately show ?thesis by simp
  qed
qed

lemma ensure_languages_store:
  assumes "\<forall>k. answers k \<noteq> None" and "persisted answers d"
    and "ensure_languages list_set e answers d = Inr r"
  shows "persisted answers r \<and> unique_cards r = unique_cards d
       \<and> note_type_opts (conf r) = note_type_opts (conf d)"
proof (cases "missing_decks list_set e d = []")
  case True
  then have r: "r = start_downloads d" using assms(3) by (simp add: ensure_languages_def)
  have "persisted answers r" unfolding r using assms(2) by (simp only: persisted_started)
  moreover have "unique_cards r = unique_cards d"
    "note_type_opts (conf r) = note_type_opts (conf d)"
    unfolding r by (simp_all add: start_downloads_def)
  ultimately show ?thesis by simp
next
  case False
  then have "select_lang answers (missing_decks list_set e d) d = Inr r"
    using assms(3) by (simp add: ensure_languages_def)
  from select_lang_store[OF False assms(1,2) this] show ?thesis .
qed

lemma select_field_store:
  "missing_ids \<noteq> [] \<Longrightarrow> \<forall>k. answers k \<noteq> None \<Longrightarrow> persisted answers d \<Longrightarrow>
   select_field list_set e answers missing_ids field_type d = Inr r \<Longrightarrow>
     persisted answers r \<and> unique_cards r = unique_cards d
       \<and> (\<forall>key. note_type_opts (conf d) key \<noteq> None \<longrightarrow> note_type_opts (conf r) key \<noteq> None)
       \<and> (\<forall>n\<in>set missing_ids. note_type_opts (conf r) (field_type, n) \<noteq> None)
       \<and> (field_type \<noteq> ''audioField'' \<longrightarrow>
            (\<forall>n\<in>set (missing_note_types list_set e ''audioField'' d).
               note_type_opts (conf r) (''audioField'', n) \<noteq> None))"
proof (induction list_set e answers missing_ids field_type d rule: select_field.induct)
  case (1 list_set e answers missing_ids field_type d)
  obtain f where Some: "answers (length (asked d)) = Some f"
    using "1.prems"(2) by (cases "answers (length (asked d))") (auto dest: spec[of _ "length (asked d)"])
  let ?x = "last missing_ids"
  let ?d1 = "d\<lparr>asked := asked d @ [FieldSelector ?x field_type],
                 stores := stores d @ [conf d]\<rparr>"
  let ?d2 = "?d1\<lparr>conf := set_note_type_specific_config_object (conf ?d1) field_type f ?x\<rparr>"
  let ?new = "missing_note_types list_set e ''audioField'' ?d2"
  have p2: "persisted answers ?d2"
    using persisted_step_field[OF "1.prems"(3) Some, where n = ?x and g = field_type] by simp
  have u2: "unique_cards ?d2 = unique_cards d" by simp
  have m2: "\<And>key. note_type_opts (conf d) key \<noteq> None \<Longrightarrow>
                    note_type_opts (conf ?d2) key \<noteq> None"
    by (simp add: set_note_type_specific_config_object_def)
  have x2: "note_type_opts (conf ?d2) (field_type, ?x) \<noteq> None"
    by (simp add: set_note_type_specific_config_object_def)
  have audio: "field_type \<noteq> ''audioField'' \<Longrightarrow>
      ?new = missing_note_types list_set e ''audioField'' d"
    by (rule missing_note_types_cong) (simp_all add: set_note_type_specific_config_object_def)
  show ?case
  proof (cases "length missing_ids > 1")
    case True
    then have ne: "butlast missing_ids \<noteq> []" by (cases missing_ids) auto
    have eq: "select_field list_set e answers missing_ids field_type d
                = select_field list_set e answers (butlast missing_ids) field_type ?d2"
      using "1.prems"(1) Some True by (subst select_field.simps) (simp add: Let_def)
    then have res: "select_field list_set e answers (butlast missing_ids) field_type ?d2 = Inr r"
      using "1.prems"(4) by simp
    from "1.IH"(1)[OF "1.prems"(1) refl refl Some refl True ne "1.prems"(2) p2 res]
    have a: "persisted answers r" and b: "unique_cards r = unique_cards ?d2"
      and c: "\<forall>key. note_type_opts (conf ?d2) key \<noteq> None \<longrightarrow> note_type_opts (conf r) key \<noteq> None"
      and d: "\<forall>n\<in>set (butlast missing_ids). note_type_opts (conf r) (field_type, n) \<noteq> None"
      and g: "field_type \<noteq> ''audioField'' \<longrightarrow>
            (\<forall>n\<in>set ?new. note_type_opts (conf r) (''audioField'', n) \<noteq> None)"
      by blast+
    have mono: "\<forall>key. note_type_opts (conf d) key \<noteq> None \<longrightarrow> note_type_opts (conf r) key \<noteq> None"
      using c m2 by blast
    have xr: "note_type_opts (conf r) (field_type, ?x) \<noteq> None" using c x2 by blast
    have "set missing_ids = insert ?x (set (butlast missing_ids))"
      using "1.prems"(1) by (metis append_butlast_last_id list.simps(15) rotate1.simps(2) set_rotate1)
    then have all: "\<forall>n\<in>set missing_ids. note_type_opts (conf r) (field_type, n) \<noteq> None"
      using d xr by simp
    have g': "field_type \<noteq> ''audioField'' \<longrightarrow>
            (\<forall>n\<in>set (missing_note_types list_set e ''audioField'' d).
               note_type_opts (conf r) (''audioField'', n) \<noteq> None)"
      using g audio by simp
    show ?thesis using a b u2 mono all g' by simp
  next
    case False
    have one: "set missing_ids = {?x}"
      using single_last[OF "1.prems"(1) False] by (metis list.simps(15) empty_set)
    show ?thesis
    proof (cases "field_type = ''audioField'' \<or> ?new = []")
      case True
      then have eq: "select_field list_set e answers missing_ids field_type d
                  = ensure_languages list_set e answers ?d2"
        using "1.prems"(1) Some False by (subst select_field.simps) (auto simp: Let_def)
      then have res: "ensure_languages list_set e answers ?d2 = Inr r"
        using "1.prems"(4) by simp
      from ensure_languages_store[OF "1.prems"(2) p2 res]
      have a: "persisted answers r" and b: "unique_cards r = unique_cards ?d2"
        and c: "note_type_opts (conf r) = note_type_opts (conf ?d2)"
        by blast+
      have mono: "\<forall>key. note_type_opts (conf d) key \<noteq> None \<longrightarrow> note_type_opts (conf r) key \<noteq> None"
        using c m2 by simp
      have all: "\<forall>n\<in>set missing_ids. note_type_opts (conf r) (field_type, n) \<noteq> None"
        using c x2 one by simp
      have g': "field_type \<noteq> ''audioField'' \<longrightarrow>
            (\<forall>n\<in>set (missing_note_types list_set e ''audioField'' d).
               note_type_opts (conf r) (''audioField'', n) \<noteq> None)"
        using True audio by auto
      show ?thesis using a b u2 mono all g' by simp
    next
      case F2: False
      then have ft: "field_type \<noteq> ''audioField''" and ne: "?new \<noteq> []" by simp_all
      have pos: "0 < length ?new" using ne by simp
      have eq: "select_field list_set e answers missing_ids field_type d
                  = select_field list_set e answers ?new ''audioField'' ?d2"
        using "1.prems"(1) Some False ft ne by (subst select_field.simps) (simp add: Let_def)
      then have res: "select_field list_set e answers ?new ''audioField'' ?d2 = Inr r"
        using "1.prems"(4) by simp
      from "1.IH"(2)[OF "1.prems"(1) refl refl Some refl False ft refl pos ne "1.prems"(2) p2 res]
      have a: "persisted answers r" and b: "unique_cards r = unique_cards ?d2"
        and c: "\<forall>key. note_type_opts (conf ?d2) key \<noteq> None \<longrightarrow> note_type_opts (conf r) key \<noteq> None"
        and d: "\<forall>n\<in>set ?new. note_type_opts (conf r) (''audioField'', n) \<noteq> None"
        by blast+
      have mono: "\<forall>key. note_type_opts (conf d) key \<noteq> None \<longrightarrow> note_type_opts (conf r) key \<noteq> None"
        using c m2 by blast
      have all: "\<forall>n\<in>set missing_ids. note_type_opts (conf r) (field_type, n) \<noteq> None"
        using c x2 one by simp
      have g': "field_type \<noteq> ''audioField'' \<longrightarrow>
            (\<forall>n\<in>set (missing_note_types list_set e ''audioField'' d).
               note_type_opts (conf r) (''audioField'', n) \<noteq> None)"
        using d audio[OF ft] by simp
      show ?thesis using a b u2 mono all g' by simp
    qed
  qed
qed

lemma missing_note_types_mem:
  assumes "\<And>xs. distinct (list_set xs) \<and> set (list_set xs) = set xs"
    and "c \<in> set (unique_cards d)"
    and "get_note_type_specific_config_object (conf d) ft (card_note_type_id e c) = None"
  shows "card_note_type_id e c \<in> set (missing_note_types list_set e ft d)"
  using assms by (auto simp: missing_note_types_def)

lemma missing_note_types_empty:
  assumes "\<And>xs. distinct (list_set xs) \<and> set (list_set xs) = set xs"
    and "\<forall>c\<in>set (unique_cards d). note_type_opts (conf d) (ft, card_note_type_id e c) \<noteq> None"
  shows "missing_note_types list_set e ft d = []"
proof -
  have "filter (\<lambda>c. get_note_type_specific_config_object (conf d) ft (card_note_type_id e c)
                      = None) (unique_cards d) = []"
    using assms(2) by (simp add: filter_empty_conv get_note_type_specific_config_object_def)
  then have "missing_note_types list_set e ft d = list_set []"
    by (simp add: missing_note_types_def)
  moreover have "set (list_set []) = {}" using assms(1)[of "[]"] by simp
  ultimately show ?thesis by simp
qed

lemma ensure_fields_store:
  assumes ls: "\<And>xs. distinct (list_set xs) \<and> set (list_set xs) = set xs"
    and ans: "\<forall>k. answers k \<noteq> None" and p: "persisted answers d"
    and res: "ensure_fields list_set e answers d = Inr r"
    and ft: "ft = ''searchField'' \<or> ft = ''audioField''"
  shows "persisted answers r \<and> missing_note_types list_set e ft r = []"
proof -
  let ?ms = "missing_note_types list_set e ''searchField'' d"
  let ?ma = "missing_note_types list_set e ''audioField'' d"
  have "persisted answers r \<and> unique_cards r = unique_cards d
       \<and> (\<forall>c\<in>set (unique_cards d).
             note_type_opts (conf r) (''searchField'', card_note_type_id e c) \<noteq> None
           \<and> note_type_opts (conf r) (''audioField'', card_note_type_id e c) \<noteq> None)"
  proof (cases "?ms = []")
    case False
    then have "select_field list_set e answers ?ms ''searchField'' d = Inr r"
      using res by (simp add: ensure_fields_def)
    from select_field_store[OF False ans p this]
    have a: "persisted answers r" and b: "unique_cards r = unique_cards d"
      and mono: "\<forall>key. note_type_opts (conf d) key \<noteq> None \<longrightarrow> note_type_opts (conf r) key \<noteq> None"
      and s: "\<forall>n\<in>set ?ms. note_type_opts (conf r) (''searchField'', n) \<noteq> None"
      and au: "\<forall>n\<in>set ?ma. note_type_opts (conf r) (''audioField'', n) \<noteq> None"
      by simp_all
    have "\<forall>c\<in>set (unique_cards d).
             note_type_opts (conf r) (''searchField'', card_note_type_id e c) \<noteq> None
           \<and> note_type_opts (conf r) (''audioField'', card_note_type_id e c) \<noteq> None"
    proof
      fix c assume c: "c \<in> set (unique_cards d)"
      have "note_type_opts (conf r) (''searchField'', card_note_type_id e c) \<noteq> None"
      proof (cases "note_type_opts (conf d) (''searchField'', card_note_type_id e c)")
        case None
        then have "card_note_type_id e c \<in> set ?ms"
          using missing_note_types_mem[OF ls c] by (simp add: get_note_type_specific_config_object_def)
        with s show ?thesis by blast
      next
        case (Some v)
        with mono show ?thesis by simp
      qed
      moreover have "note_type_opts (conf r) (''audioField'', card_note_type_id e c) \<noteq> None"
      proof (cases "note_type_opts (conf d) (''audioField'', card_note_type_id e c)")
        case None
        then have "card_note_type_id e c \<in> set ?ma"
          using missing_note_types_mem[OF ls c] by (simp add: get_note_type_specific_config_object_def)
        with au show ?thesis by blast
      next
        case (Some v)
        with mono show ?thesis by simp
      qed
      ultimately show "note_type_opts (conf r) (''searchField'', card_note_type_id e c) \<noteq> None
           \<and> note_type_opts (conf r) (''audioField'', card_note_type_id e c) \<noteq> None"
        by simp
    qed
    with a b show ?thesis by simp
  next
    case True
    have sd: "\<forall>c\<in>set (unique_cards d).
                note_type_opts (conf d) (''searchField'', card_note_type_id e c) \<noteq> None"
    proof
      fix c assume c: "c \<in> set (unique_cards d)"
      show "note_type_opts (conf d) (''searchField'', card_note_type_id e c) \<noteq> None"
      proof
        assume "note_type_opts (conf d) (''searchField'', card_note_type_id e c) = None"
        then have "card_note_type_id e c \<in> set ?ms"
          using missing_note_types_mem[OF ls c] by (simp add: get_note_type_specific_config_object_def)
        with True show False by simp
      qed
    qed
    show ?thesis
    proof (cases "?ma = []")
      case False
      then have "select_field list_set e answers ?ma ''audioField'' d = Inr r"
        using res True by (simp add: ensure_fields_def)
      from select_field_store[OF False ans p this]
      have a: "persisted answers r" and b: "unique_cards r = unique_cards d"
        and mono: "\<forall>key. note_type_opts (conf d) key \<noteq> None \<longrightarrow> note_type_opts (conf r) key \<noteq> None"
        and au: "\<forall>n\<in>set ?ma. note_type_opts (conf r) (''audioField'', n) \<noteq> None"
        by simp_all
      have "\<forall>c\<in>set (unique_cards d).
             note_type_opts (conf r) (''searchField'', card_note_type_id e c) \<noteq> None
           \<and> note_type_opts (conf r) (''audioField'', card_note_type_id e c) \<noteq> None"
      proof
        fix c assume c: "c \<in> set (unique_cards d)"
        have "note_type_opts (conf r) (''searchField'', card_note_type_id e c) \<noteq> None"
          using sd c mono by blast
        moreover have "note_type_opts (conf r) (''audioField'', card_note_type_id e c) \<noteq> None"
        proof (cases "note_type_opts (conf d) (''audioField'', card_note_type_id e c)")
          case None
          then have "card_note_type_id e c \<in> set ?ma"
            using missing_note_types_mem[OF ls c]
            by (simp add: get_note_type_specific_config_object_def)
          with au show ?thesis by blast
        next
          case (Some v)
          with mono show ?thesis by simp
        qed
        ultimately show "note_type_opts (conf r) (''searchField'', card_note_type_id e c) \<noteq> None
           \<and> note_type_opts (conf r) (''audioField'', card_note_type_id e c) \<noteq> None"
          by simp
      qed
      with a b show ?thesis by simp
    next
      case T2: True
      have ad: "\<forall>c\<in>set (unique_cards d).
                note_type_opts (conf d) (''audioField'', card_note_type_id e c) \<noteq> None"
      proof
        fix c assume c: "c \<in> set (unique_cards d)"
        show "note_type_opts (conf d) (''audioField'', card_note_type_id e c) \<noteq> None"
        proof
          assume "note_type_opts (conf d) (''audioField'', card_note_type_id e c) = None"
          then have "card_note_type_id e c \<in> set ?ma"
            using missing_note_types_mem[OF ls c]
            by (simp add: get_note_type_specific_config_object_def)
          with T2 show False by simp
        qed
      qed
      have r: "r = start_downloads d" using res True T2 by (simp add: ensure_fields_def)
      have "persisted answers r" unfolding r using p by (simp only: persisted_started)
      moreover have "unique_cards r = unique_cards d" "conf r = conf d"
        unfolding r by (simp_all add: start_downloads_def)
      ultimately show ?thesis using sd ad by simp
    qed
  qed
  then have a: "persisted answers r" and b: "unique_cards r = unique_cards d"
    and en: "\<forall>c\<in>set (unique_cards r).
               note_type_opts (conf r) (ft, card_note_type_id e c) \<noteq> None"
    using ft by auto
  from missing_note_types_empty[OF ls en] a show ?thesis by simp
qed

text \<open>
  Claim C7. Every dialog is answered and the dialog window is fresh. Then, for the search
  field as for the audio field, the note types for which a dialog is shown are pairwise
  different and are exactly the note types of the cards that lack the field: the number
  of dialogs is the number of these note types, and not the number of cards. The answer
  to each dialog for a field is in the configuration, under that field and that note
  type, when the next dialog is shown (and at the end, for the last dialog); and when the
  resolution has ended no card is left whose note type lacks the field.
\<close>

theorem one_request_per_note_type:
  assumes "\<And>xs. distinct (list_set xs) \<and> set (list_set xs) = set xs"
    and "\<And>k. answers k \<noteq> None"
    and "asked d = []" and "stores d = []"
    and "ft = ''searchField'' \<or> ft = ''audioField''"
  shows "\<exists>r. ensure_fields list_set e answers d = Inr r
     \<and> distinct (field_requests ft (asked r))
     \<and> set (field_requests ft (asked r))
         = card_note_type_id e `
             {c \<in> set (unique_cards d).
                get_note_type_specific_config_object (conf d) ft (card_note_type_id e c) = None}
     \<and> length (field_requests ft (asked r))
         = card (card_note_type_id e `
             {c \<in> set (unique_cards d).
                get_note_type_specific_config_object (conf d) ft (card_note_type_id e c) = None})
     \<and> (\<forall>k<length (asked r). \<forall>n g.
           asked r ! k = FieldSelector n g \<longrightarrow>
             get_note_type_specific_config_object ((stores r @ [conf r]) ! Suc k) g n
               = answers k)
     \<and> missing_note_types list_set e ft r = []"
proof -
  let ?T = "card_note_type_id e `
             {c \<in> set (unique_cards d).
                get_note_type_specific_config_object (conf d) ft (card_note_type_id e c) = None}"
  have all: "\<forall>k. answers k \<noteq> None" using assms(2) by simp
  from ensure_fields_requests[OF all, of list_set e d] assms(3,5)
  obtain r where r: "ensure_fields list_set e answers d = Inr r"
    and q: "field_requests ft (asked r) = rev (missing_note_types list_set e ft d)"
    by auto
  have di: "distinct (missing_note_types list_set e ft d)"
    using assms(1) by (simp add: missing_note_types_def)
  have se: "set (missing_note_types list_set e ft d) = ?T"
    using assms(1) by (auto simp: missing_note_types_def)
  have p0: "persisted answers d" using assms(3,4) by (simp add: persisted_def)
  from ensure_fields_store[OF assms(1) all p0 r assms(5)]
  have pr: "persisted answers r" and gap: "missing_note_types list_set e ft r = []"
    by simp_all
  have per: "\<forall>k<length (asked r). \<forall>n g.
           asked r ! k = FieldSelector n g \<longrightarrow>
             get_note_type_specific_config_object ((stores r @ [conf r]) ! Suc k) g n
               = answers k"
  proof (intro allI impI)
    fix k n g assume k: "k < length (asked r)" and a: "asked r ! k = FieldSelector n g"
    from pr k have "(case asked r ! k of
            FieldSelector n g \<Rightarrow>
              get_note_type_specific_config_object ((stores r @ [conf r]) ! Suc k) g n
                = answers k
          | LanguageSelector deck \<Rightarrow>
              get_deck_specific_config_object ((stores r @ [conf r]) ! Suc k) ''language'' deck
                = answers k)"
      by (simp add: persisted_def)
    then show "get_note_type_specific_config_object ((stores r @ [conf r]) ! Suc k) g n
                 = answers k"
      by (simp add: a)
  qed
  have "distinct (field_requests ft (asked r))" using di q by simp
  moreover have "set (field_requests ft (asked r)) = ?T" using se q by simp
  moreover have "length (field_requests ft (asked r)) = card ?T"
    using di se q by (metis distinct_card length_rev)
  ultimately show ?thesis using r per gap by blast
qed

theorem one_request_per_note_type_witness:
  "length (unique_cards ex_dialog) = 5
   \<and> (\<exists>r. ensure_fields remdups ex_env3 (\<lambda>k. Some ''Front'') ex_dialog = Inr r
          \<and> set (field_requests ''audioField'' (asked r)) = {10, 11, 12}
          \<and> length (field_requests ''audioField'' (asked r)) = 3
          \<and> missing_note_types remdups ex_env3 ''audioField'' r = [])"
proof -
  have T: "card_note_type_id ex_env3 `
             {c \<in> set (unique_cards ex_dialog).
                get_note_type_specific_config_object (conf ex_dialog) ''audioField''
                  (card_note_type_id ex_env3 c) = None} = {10, 11, 12}"
  proof -
    have S: "{c \<in> set (unique_cards ex_dialog).
                get_note_type_specific_config_object (conf ex_dialog) ''audioField''
                  (card_note_type_id ex_env3 c) = None} = {0, 1, 2, 3, 4}"
      by (auto simp: ex_dialog_def get_note_type_specific_config_object_def)
    have I: "card_note_type_id ex_env3 ` {0, 1, 2, 3, 4} = {10, 11, 12}"
      by (simp add: ex_env3_def ex_env_def insert_commute)
    show ?thesis unfolding S by (rule I)
  qed
  have c: "card {10, 11, 12 :: nat} = 3" by simp
  have a: "asked ex_dialog = []" "stores ex_dialog = []" by (simp_all add: ex_dialog_def)
  have l: "length (unique_cards ex_dialog) = 5" by (simp add: ex_dialog_def)
  from one_request_per_note_type[of remdups "\<lambda>k. Some ''Front''" ex_dialog "''audioField''" ex_env3]
  have "\<exists>r. ensure_fields remdups ex_env3 (\<lambda>k. Some ''Front'') ex_dialog = Inr r
          \<and> set (field_requests ''audioField'' (asked r)) = {10, 11, 12}
          \<and> length (field_requests ''audioField'' (asked r)) = 3
          \<and> missing_note_types remdups ex_env3 ''audioField'' r = []"
    unfolding T c using a by auto
  then show ?thesis using l by blast
qed

end
